theory Spec2Isabelle
  imports Main "HOL-Library.Char_ord" "HOL-Library.List_Lexorder" "HOL-Library.Multiset"
begin

section \<open>Unit model (pkg/types/types.go)\<close>

text \<open>
  Go strings are byte sequences compared bytewise, so a string is a \<open>char list\<close> with the
  lexicographic order on lists over the order of the byte values. A Go map is a partial
  function; a nil slice and an empty slice are both the empty list. The pointers stored in
  \<open>UnitFile.Sections\<close> are never nil (the parser stores the address of a fresh section), so a
  section is stored by value.
\<close>

datatype Severity = SeverityInfo | SeverityLow | SeverityMedium | SeverityHigh | SeverityCritical

fun Severity_int :: "Severity \<Rightarrow> int" where
  "Severity_int SeverityInfo = 0"
| "Severity_int SeverityLow = 1"
| "Severity_int SeverityMedium = 2"
| "Severity_int SeverityHigh = 3"
| "Severity_int SeverityCritical = 4"

record Directive =
  d_Key :: string
  d_Value :: string
  d_Line :: int

record Section =
  s_Name :: string
  Directives :: "string \<rightharpoonup> Directive list"

record UnitFile =
  Name :: string
  Path :: string
  UnitType :: string
  Sections :: "string \<rightharpoonup> Section"
  Raw :: string

definition GetDirective :: "UnitFile \<Rightarrow> string \<Rightarrow> string \<Rightarrow> string" where
  "GetDirective u section key =
     (case Sections u section of
        Some s \<Rightarrow>
          (case Directives s key of
             Some (d # ds) \<Rightarrow> d_Value d
           | _ \<Rightarrow> '''')
      | None \<Rightarrow> '''')"

definition GetDirectives :: "UnitFile \<Rightarrow> string \<Rightarrow> string \<Rightarrow> Directive list" where
  "GetDirectives u section key =
     (case Sections u section of
        Some s \<Rightarrow>
          (case Directives s key of
             Some directives \<Rightarrow> directives
           | None \<Rightarrow> [])
      | None \<Rightarrow> [])"

definition HasDirective :: "UnitFile \<Rightarrow> string \<Rightarrow> string \<Rightarrow> bool" where
  "HasDirective u section key =
     (case Sections u section of
        Some s \<Rightarrow> Directives s key \<noteq> None
      | None \<Rightarrow> False)"

text \<open>\<open>getDirectiveValue\<close> of the timing and validation packages: the first value of a key in a section.\<close>

definition getDirectiveValue :: "Section \<Rightarrow> string \<Rightarrow> string" where
  "getDirectiveValue section key =
     (case Directives section key of
        Some (d # ds) \<Rightarrow> d_Value d
      | _ \<Rightarrow> '''')"

section \<open>Dependency graph (internal/graph)\<close>

datatype EdgeType =
    EdgeRequires | EdgeRequisite | EdgeWants | EdgeBindsTo | EdgePartOf | EdgeConflicts
  | EdgeAfter | EdgeBefore | EdgeTriggeredBy | EdgePropagatesReloadTo | EdgeReloadPropagatedFrom

text \<open>
  Modelled from the spec: the file declaring \<open>EdgeType\<close> is not part of the sources at hand, so
  the ordinal of an edge type (used only to sort the edge types of a cycle) follows the order
  of the edge type table of the data model.
\<close>

fun EdgeType_ordinal :: "EdgeType \<Rightarrow> nat" where
  "EdgeType_ordinal EdgeRequires = 0"
| "EdgeType_ordinal EdgeRequisite = 1"
| "EdgeType_ordinal EdgeWants = 2"
| "EdgeType_ordinal EdgeBindsTo = 3"
| "EdgeType_ordinal EdgePartOf = 4"
| "EdgeType_ordinal EdgeConflicts = 5"
| "EdgeType_ordinal EdgeAfter = 6"
| "EdgeType_ordinal EdgeBefore = 7"
| "EdgeType_ordinal EdgeTriggeredBy = 8"
| "EdgeType_ordinal EdgePropagatesReloadTo = 9"
| "EdgeType_ordinal EdgeReloadPropagatedFrom = 10"

record Edge =
  From :: string
  To :: string
  Type :: EdgeType
  File :: string
  Line :: int
  Implicit :: bool

text \<open>
  The graph: \<open>units\<close> is the Go map from unit name to parsed unit, kept as an association list
  with one pair per key so that it can be enumerated (a name is a key exactly when a unit
  record was stored for it); \<open>allEdges\<close> is the slice of all edges in insertion order.
\<close>

record Graph =
  units :: "(string \<times> UnitFile) list"
  allEdges :: "Edge list"

text \<open>
  Modelled from the spec: the file defining \<open>Graph\<close>, \<open>AddEdge\<close> and the accessors \<open>EdgesFrom\<close>,
  \<open>EdgesTo\<close> and \<open>Units\<close> is not part of the sources at hand. By the graph invariant the
  indices \<open>outgoing\<close> and \<open>incoming\<close> are consistent with the edge sequence, so \<open>outgoing[n]\<close>
  holds the edges leaving \<open>n\<close> and \<open>incoming[n]\<close> the edges entering it, in insertion order; the
  accessors return these views and the stored unit records.
\<close>

definition outgoing :: "Graph \<Rightarrow> string \<Rightarrow> Edge list" where
  "outgoing g n = filter (\<lambda>e. From e = n) (allEdges g)"

definition incoming :: "Graph \<Rightarrow> string \<Rightarrow> Edge list" where
  "incoming g n = filter (\<lambda>e. To e = n) (allEdges g)"

definition EdgesFrom :: "Graph \<Rightarrow> string \<Rightarrow> Edge list" where
  "EdgesFrom g n = outgoing g n"

definition EdgesTo :: "Graph \<Rightarrow> string \<Rightarrow> Edge list" where
  "EdgesTo g n = incoming g n"

definition Units :: "Graph \<Rightarrow> UnitFile list" where
  "Units g = map snd (units g)"

text \<open>
  \<open>sort.Slice\<close> and \<open>sort.Strings\<close> order a slice by a comparison function. Go promises a
  permutation of the input in which no element is less than an earlier one, and nothing about
  the order of elements that compare equal. Insertion from the right is one such sort; the
  theorems below use only the two promised facts.
\<close>

fun insert_by :: "('a \<Rightarrow> 'a \<Rightarrow> bool) \<Rightarrow> 'a \<Rightarrow> 'a list \<Rightarrow> 'a list" where
  "insert_by lt x [] = [x]"
| "insert_by lt x (y # ys) = (if lt y x then y # insert_by lt x ys else x # y # ys)"

fun sort_Slice :: "('a \<Rightarrow> 'a \<Rightarrow> bool) \<Rightarrow> 'a list \<Rightarrow> 'a list" where
  "sort_Slice lt [] = []"
| "sort_Slice lt (x # xs) = insert_by lt x (sort_Slice lt xs)"

subsection \<open>Cycles (tarjan.go)\<close>

record SCC =
  scc_Units :: "string list"
  scc_Edges :: "Edge list"
  scc_EdgeTypes :: "EdgeType list"

text \<open>
  \<open>FindCycles\<close> takes the strongly connected components from a library routine
  (\<open>topo.TarjanSCC\<close>); they are the parameter \<open>sccs\<close>, each component a list of node ids, with
  \<open>nodes\<close> the map from node id to unit name. The loop body builds one cycle record from a
  component of more than one node.
\<close>

definition scc_of_component :: "(nat \<rightharpoonup> string) \<Rightarrow> Edge list \<Rightarrow> nat list \<Rightarrow> SCC" where
  "scc_of_component nodes edges scc =
     (let unitNames = List.map_filter nodes scc;
          unitSet = set unitNames;
          cycleEdges = filter (\<lambda>e. From e \<in> unitSet \<and> To e \<in> unitSet) edges;
          edgeTypes = sort_Slice (\<lambda>a b. EdgeType_ordinal a < EdgeType_ordinal b)
                        (remdups (map Type cycleEdges))
      in \<lparr> scc_Units = sort_Slice (<) unitNames,
           scc_Edges = cycleEdges,
           scc_EdgeTypes = edgeTypes \<rparr>)"

definition cycles_less :: "SCC \<Rightarrow> SCC \<Rightarrow> bool" where
  "cycles_less a b =
     (case scc_Units a of
        [] \<Rightarrow> True
      | ua # _ \<Rightarrow> (case scc_Units b of [] \<Rightarrow> False | ub # _ \<Rightarrow> ua < ub))"

definition FindCycles :: "(nat \<rightharpoonup> string) \<Rightarrow> nat list list \<Rightarrow> Graph \<Rightarrow> SCC list" where
  "FindCycles nodes sccs g =
     sort_Slice cycles_less
       (map (scc_of_component nodes (allEdges g)) (filter (\<lambda>scc. \<not> length scc \<le> 1) sccs))"

definition CycleSeverity :: "SCC \<Rightarrow> string" where
  "CycleSeverity s =
     (if list_ex (\<lambda>et. et = EdgeRequires \<or> et = EdgeBindsTo \<or> et = EdgeRequisite) (scc_EdgeTypes s)
      then ''critical''
      else if list_ex (\<lambda>et. et = EdgeWants) (scc_EdgeTypes s) then ''high''
      else ''medium'')"

subsection \<open>Dangling references (analysis.go)\<close>

record DanglingRef =
  dr_From :: string
  dr_To :: string
  dr_EdgeType :: EdgeType
  dr_File :: string
  dr_Line :: int

fun danglingRefSeverityOrder :: "EdgeType \<Rightarrow> int" where
  "danglingRefSeverityOrder EdgeRequires = 0"
| "danglingRefSeverityOrder EdgeRequisite = 0"
| "danglingRefSeverityOrder EdgeBindsTo = 0"
| "danglingRefSeverityOrder EdgeWants = 1"
| "danglingRefSeverityOrder EdgeAfter = 2"
| "danglingRefSeverityOrder EdgeBefore = 2"
| "danglingRefSeverityOrder _ = 3"

fun EdgeType_dangling_severity :: "EdgeType \<Rightarrow> string" where
  "EdgeType_dangling_severity EdgeRequires = ''high''"
| "EdgeType_dangling_severity EdgeRequisite = ''high''"
| "EdgeType_dangling_severity EdgeBindsTo = ''high''"
| "EdgeType_dangling_severity EdgeWants = ''medium''"
| "EdgeType_dangling_severity EdgeAfter = ''low''"
| "EdgeType_dangling_severity EdgeBefore = ''low''"
| "EdgeType_dangling_severity _ = ''info''"

definition DanglingRef_Severity :: "DanglingRef \<Rightarrow> string" where
  "DanglingRef_Severity d = EdgeType_dangling_severity (dr_EdgeType d)"

definition dangling_of_edge :: "Edge \<Rightarrow> DanglingRef" where
  "dangling_of_edge e =
     \<lparr> dr_From = From e, dr_To = To e, dr_EdgeType = Type e, dr_File = File e, dr_Line = Line e \<rparr>"

definition dangling_less :: "DanglingRef \<Rightarrow> DanglingRef \<Rightarrow> bool" where
  "dangling_less a b =
     (let si = danglingRefSeverityOrder (dr_EdgeType a);
          sj = danglingRefSeverityOrder (dr_EdgeType b)
      in if si \<noteq> sj then si < sj
         else if dr_From a \<noteq> dr_From b then dr_From a < dr_From b
         else dr_To a < dr_To b)"

definition FindDanglingRefs :: "Graph \<Rightarrow> DanglingRef list" where
  "FindDanglingRefs g =
     sort_Slice dangling_less
       (map dangling_of_edge (filter (\<lambda>e. map_of (units g) (To e) = None) (allEdges g)))"

text \<open>
  The order the specification names: the rank of a severity word, most severe first, then the
  name of the referring unit, then the name of the missing unit.
\<close>

definition dangling_severity_rank :: "string \<Rightarrow> nat" where
  "dangling_severity_rank s =
     (if s = ''high'' then 0 else if s = ''medium'' then 1 else if s = ''low'' then 2 else 3)"

definition dangling_ordered :: "DanglingRef \<Rightarrow> DanglingRef \<Rightarrow> bool" where
  "dangling_ordered a b =
     (dangling_severity_rank (DanglingRef_Severity a) < dangling_severity_rank (DanglingRef_Severity b)
      \<or> (dangling_severity_rank (DanglingRef_Severity a) = dangling_severity_rank (DanglingRef_Severity b)
          \<and> (dr_From a < dr_From b \<or> (dr_From a = dr_From b \<and> dr_To a \<le> dr_To b))))"

section \<open>Scanning (internal/analyzer/analyzer.go)\<close>

datatype Category = CategorySecurity | CategoryPerformance | CategoryReliability | CategoryBestPractice

record Issue =
  RuleID :: string
  RuleName :: string
  i_Severity :: Severity
  i_Category :: Category
  Tags :: "string list"
  i_Unit :: string
  i_File :: string
  i_Line :: "int option"
  Description :: string
  Suggestion :: string
  References :: "string list"

record Options =
  o_Category :: "Category option"
  o_MinSeverity :: "Severity option"
  o_Tags :: "string list"

text \<open>
  The rule engine is outside the analyzer: \<open>rules.RunAll\<close>, \<open>rules.RunFiltered\<close> and
  \<open>rules.Count\<close> are the fields of a record of parameters. A rule context holds the unit, all
  loaded units and the configuration.
\<close>

record 'c Context =
  ctx_Unit :: UnitFile
  ctx_AllUnits :: "(string \<times> UnitFile) list"
  ctx_Config :: 'c

record 'c RuleEngine =
  RunAll :: "'c Context \<Rightarrow> Issue list"
  RunFiltered :: "'c Context \<Rightarrow> Category option \<Rightarrow> Severity option \<Rightarrow> string list \<Rightarrow> Issue list"
  Count :: nat

record Summary =
  TotalUnits :: nat
  TotalIssues :: nat
  BySeverity :: "Severity \<Rightarrow> nat"
  ByCategory :: "Category \<Rightarrow> nat"
  RulesChecked :: nat

record ScanResult =
  r_Units :: "UnitFile list"
  r_Issues :: "Issue list"
  r_Summary :: Summary

definition issue_less :: "Issue \<Rightarrow> Issue \<Rightarrow> bool" where
  "issue_less a b =
     (if i_Severity a \<noteq> i_Severity b then Severity_int (i_Severity a) > Severity_int (i_Severity b)
      else i_Unit a < i_Unit b)"

definition issues_of_unit ::
  "'c RuleEngine \<Rightarrow> 'c \<Rightarrow> Options \<Rightarrow> (string \<times> UnitFile) list \<Rightarrow> UnitFile \<Rightarrow> Issue list" where
  "issues_of_unit eng config opts allUnits unit =
     (let ctx = \<lparr> ctx_Unit = unit, ctx_AllUnits = allUnits, ctx_Config = config \<rparr>
      in if o_Category opts \<noteq> None \<or> o_MinSeverity opts \<noteq> None \<or> length (o_Tags opts) > 0
         then RunFiltered eng ctx (o_Category opts) (o_MinSeverity opts) (o_Tags opts)
         else RunAll eng ctx)"

definition summarize :: "'c RuleEngine \<Rightarrow> UnitFile list \<Rightarrow> Issue list \<Rightarrow> Summary" where
  "summarize eng us allIssues =
     \<lparr> TotalUnits = length us,
       TotalIssues = length allIssues,
       BySeverity = (\<lambda>s. length (filter (\<lambda>i. i_Severity i = s) allIssues)),
       ByCategory = (\<lambda>c. length (filter (\<lambda>i. i_Category i = c) allIssues)),
       RulesChecked = Count eng \<rparr>"

text \<open>
  \<open>Scan\<close> receives what \<open>LoadUnitsFromPaths\<close> returned: an error, or the map of loaded units,
  given as the list of its entries in the order the loop over the map visits them.
\<close>

definition Scan ::
  "'c RuleEngine \<Rightarrow> 'c \<Rightarrow> Options \<Rightarrow> string + (string \<times> UnitFile) list \<Rightarrow> string + ScanResult" where
  "Scan eng config opts loaded =
     (case loaded of
        Inl err \<Rightarrow> Inl (''failed to load units: '' @ err)
      | Inr allUnits \<Rightarrow>
          if length allUnits = 0
          then Inr \<lparr> r_Units = [], r_Issues = [],
                     r_Summary = \<lparr> TotalUnits = 0, TotalIssues = 0, BySeverity = (\<lambda>_. 0),
                                   ByCategory = (\<lambda>_. 0), RulesChecked = 0 \<rparr> \<rparr>
          else
            (let us = map snd allUnits;
                 allIssues = concat (map (issues_of_unit eng config opts allUnits) us);
                 us' = sort_Slice (\<lambda>a b. Name a < Name b) us;
                 allIssues' = sort_Slice issue_less allIssues
             in Inr \<lparr> r_Units = us', r_Issues = allIssues',
                       r_Summary = summarize eng us' allIssues' \<rparr>))"

text \<open>
  \<open>CheckFiles\<close> receives the outcome of reading the given paths: an error, or the units in the
  order they were appended together with the map built from them.
\<close>

definition CheckFiles ::
  "'c RuleEngine \<Rightarrow> 'c \<Rightarrow> Options \<Rightarrow> string + (UnitFile list \<times> (string \<times> UnitFile) list)
     \<Rightarrow> string + ScanResult" where
  "CheckFiles eng config opts loaded =
     (case loaded of
        Inl err \<Rightarrow> Inl err
      | Inr (us, allUnits) \<Rightarrow>
          (let allIssues = concat (map (issues_of_unit eng config opts allUnits) us);
               allIssues' = sort_Slice issue_less allIssues
           in Inr \<lparr> r_Units = us, r_Issues = allIssues',
                     r_Summary = summarize eng us allIssues' \<rparr>))"

text \<open>The order the specification names for the issue list.\<close>

definition issue_ordered :: "Issue \<Rightarrow> Issue \<Rightarrow> bool" where
  "issue_ordered a b =
     (Severity_int (i_Severity a) > Severity_int (i_Severity b)
      \<or> (i_Severity a = i_Severity b \<and> i_Unit a \<le> i_Unit b))"

section \<open>Type-specific validators (internal/validation)\<close>

text \<open>
  The filesystem and identity probe is an interface; its methods are the fields of a record.
\<close>

record FileSystem =
  Exists :: "string \<Rightarrow> bool"
  IsExecutable :: "string \<Rightarrow> bool"
  IsDirectory :: "string \<Rightarrow> bool"
  UserExists :: "string \<Rightarrow> bool"
  GroupExists :: "string \<Rightarrow> bool"

definition HasPrefix :: "string \<Rightarrow> string \<Rightarrow> bool" where
  "HasPrefix s p = (take (length p) s = p)"

definition HasSuffix :: "string \<Rightarrow> string \<Rightarrow> bool" where
  "HasSuffix s p = (length p \<le> length s \<and> drop (length s - length p) s = p)"

definition TrimPrefix :: "string \<Rightarrow> string \<Rightarrow> string" where
  "TrimPrefix s p = (if HasPrefix s p then drop (length p) s else s)"

definition TrimSuffix :: "string \<Rightarrow> string \<Rightarrow> string" where
  "TrimSuffix s p = (if HasSuffix s p then take (length s - length p) s else s)"

text \<open>\<open>strings.ReplaceAll\<close> for a pattern and a replacement of one byte each.\<close>

definition ReplaceAll :: "string \<Rightarrow> char \<Rightarrow> char \<Rightarrow> string" where
  "ReplaceAll s old new = map (\<lambda>c. if c = old then new else c) s"

subsection \<open>Mount unit names (mount validator)\<close>

text \<open>
  \<open>filepath.Clean\<close> on a system whose separator is the slash: the path is cut at the slashes,
  empty and \<open>.\<close> elements are dropped, a \<open>..\<close> element removes the element before it when
  there is one to remove, is dropped at the root and is kept at the start of a relative path;
  the elements are joined again, after the root slash for a rooted path, and an empty result
  is \<open>.\<close>.
\<close>

fun split_on :: "char \<Rightarrow> string \<Rightarrow> string list" where
  "split_on c [] = [[]]"
| "split_on c (x # xs) =
     (if x = c then [] # split_on c xs
      else (case split_on c xs of [] \<Rightarrow> [[x]] | w # ws \<Rightarrow> (x # w) # ws))"

fun join_with :: "char \<Rightarrow> string list \<Rightarrow> string" where
  "join_with c [] = []"
| "join_with c [w] = w"
| "join_with c (w # ws) = w @ c # join_with c ws"

definition clean_step :: "bool \<Rightarrow> string list \<Rightarrow> string \<Rightarrow> string list" where
  "clean_step rooted out elem =
     (if elem = [] \<or> elem = ''.'' then out
      else if elem = ''..'' then
        (if out \<noteq> [] \<and> last out \<noteq> ''..'' then butlast out
         else if rooted then out
         else out @ [elem])
      else out @ [elem])"

definition Clean :: "string \<Rightarrow> string" where
  "Clean path =
     (if path = [] then ''.''
      else
        (let rooted = (hd path = CHR ''/'');
             out = foldl (clean_step rooted) [] (split_on CHR ''/'' path);
             res = (if rooted then ''/'' else []) @ join_with CHR ''/'' out
         in if res = [] then ''.'' else res))"

text \<open>
  A \<open>range\<close> loop over a string yields runes: it decodes UTF-8, and a byte that does not start a
  well-formed encoding yields the rune U+FFFD and advances by one byte. \<open>decode_rune\<close> returns
  the rune and the number of bytes it takes.
\<close>

definition cont_byte :: "nat \<Rightarrow> nat \<Rightarrow> nat \<Rightarrow> bool" where
  "cont_byte lo hi b = (lo \<le> b \<and> b \<le> hi)"

fun decode_rune :: "nat list \<Rightarrow> nat \<times> nat" where
  "decode_rune [] = (65533, 1)"
| "decode_rune (b0 # bs) =
     (if b0 < 128 then (b0, 1)
      else if 194 \<le> b0 \<and> b0 \<le> 223 then
        (case bs of
           b1 # _ \<Rightarrow>
             if cont_byte 128 191 b1 then ((b0 mod 32) * 64 + b1 mod 64, 2) else (65533, 1)
         | _ \<Rightarrow> (65533, 1))
      else if 224 \<le> b0 \<and> b0 \<le> 239 then
        (case bs of
           b1 # b2 # _ \<Rightarrow>
             if cont_byte (if b0 = 224 then 160 else 128) (if b0 = 237 then 159 else 191) b1
                \<and> cont_byte 128 191 b2
             then ((b0 mod 16) * 4096 + (b1 mod 64) * 64 + b2 mod 64, 3)
             else (65533, 1)
         | _ \<Rightarrow> (65533, 1))
      else if 240 \<le> b0 \<and> b0 \<le> 244 then
        (case bs of
           b1 # b2 # b3 # _ \<Rightarrow>
             if cont_byte (if b0 = 240 then 144 else 128) (if b0 = 244 then 143 else 191) b1
                \<and> cont_byte 128 191 b2 \<and> cont_byte 128 191 b3
             then ((b0 mod 8) * 262144 + (b1 mod 64) * 4096 + (b2 mod 64) * 64 + b3 mod 64, 4)
             else (65533, 1)
         | _ \<Rightarrow> (65533, 1))
      else (65533, 1))"

function runes_of :: "nat list \<Rightarrow> nat list" where
  "runes_of [] = []"
| "runes_of (b # bs) = fst (decode_rune (b # bs)) # runes_of (drop (snd (decode_rune (b # bs)) - 1) bs)"
  by pat_completeness auto
termination
  by (relation "measure length") auto

definition hex_digit :: "nat \<Rightarrow> char" where
  "hex_digit n = ''0123456789abcdef'' ! (n mod 16)"

definition escape_rune :: "nat \<Rightarrow> string" where
  "escape_rune c =
     (if (97 \<le> c \<and> c \<le> 122) \<or> (65 \<le> c \<and> c \<le> 90) \<or> (48 \<le> c \<and> c \<le> 57) \<or> c = 45 \<or> c = 95
      then [char_of c]
      else [CHR 0x5C, CHR ''x'', hex_digit ((c mod 256) div 16), hex_digit (c mod 256)])"

definition escapeMountUnitName :: "string \<Rightarrow> string" where
  "escapeMountUnitName s = concat (map escape_rune (runes_of (map of_char s)))"

definition pathToMountUnitName :: "string \<Rightarrow> string" where
  "pathToMountUnitName path =
     (if path = ''/'' then ''-.mount''
      else
        (let p1 = Clean path;
             p2 = TrimPrefix p1 ''/'';
             p3 = TrimSuffix p2 ''/'';
             name = ReplaceAll p3 CHR ''/'' CHR ''-''
         in escapeMountUnitName name @ ''.mount''))"

text \<open>
  The inverse mapping as the specification words it: strip the \<open>.mount\<close> suffix, replace each
  dash by a slash, restore the leading slash.
\<close>

definition mount_unit_name_to_path :: "string \<Rightarrow> string" where
  "mount_unit_name_to_path name = CHR ''/'' # ReplaceAll (TrimSuffix name ''.mount'') CHR ''-'' CHR ''/''"

text \<open>An absolute path given by its segments: each segment preceded by a slash.\<close>

definition path_of_segments :: "string list \<Rightarrow> string" where
  "path_of_segments segs = concat (map (\<lambda>s. CHR ''/'' # s) segs)"

definition word_char :: "char \<Rightarrow> bool" where
  "word_char c =
     ((CHR ''a'' \<le> c \<and> c \<le> CHR ''z'') \<or> (CHR ''A'' \<le> c \<and> c \<le> CHR ''Z'')
      \<or> (CHR ''0'' \<le> c \<and> c \<le> CHR ''9'') \<or> c = CHR ''_'')"

text \<open>A segment matching \<open>[A-Za-z0-9_-]+\<close>, and one matching \<open>[A-Za-z0-9_]+\<close>.\<close>

definition dash_segment :: "string \<Rightarrow> bool" where
  "dash_segment s = (s \<noteq> [] \<and> list_all (\<lambda>c. word_char c \<or> c = CHR ''-'') s)"

definition plain_segment :: "string \<Rightarrow> bool" where
  "plain_segment s = (s \<noteq> [] \<and> list_all word_char s)"

subsection \<open>Mount validator\<close>

record MountValidation =
  mv_Unit :: string
  NameMismatch :: bool
  ExpectedName :: string
  WhatMissing :: bool
  WhereMissing :: bool
  WhatValue :: string
  WhereValue :: string
  DeviceNotFound :: bool
  InvalidFSType :: bool
  FSType :: string
  mv_Issues :: "string list"
  mv_Valid :: bool

definition MountValidation_init :: "string \<Rightarrow> MountValidation" where
  "MountValidation_init n =
     \<lparr> mv_Unit = n, NameMismatch = False, ExpectedName = [], WhatMissing = False,
       WhereMissing = False, WhatValue = [], WhereValue = [], DeviceNotFound = False,
       InvalidFSType = False, FSType = [], mv_Issues = [], mv_Valid = True \<rparr>"

text \<open>
  The table lookups \<open>isNetworkFS\<close>, \<open>isSpecialDevice\<close> and \<open>isValidFSType\<close> are parameters of the
  validator: no property below depends on their tables.
\<close>

definition ValidateMount ::
  "(string \<Rightarrow> bool) \<Rightarrow> (string \<Rightarrow> bool) \<Rightarrow> (string \<Rightarrow> bool) \<Rightarrow> UnitFile \<Rightarrow> FileSystem
     \<Rightarrow> MountValidation" where
  "ValidateMount isNetworkFS isSpecialDevice isValidFSType unit fs =
     (let result = MountValidation_init (Name unit)
      in if UnitType unit \<noteq> ''mount'' then result
         else
           (case Sections unit ''Mount'' of
              None \<Rightarrow>
                result\<lparr> mv_Valid := False,
                        mv_Issues := mv_Issues result @ [''Mount unit has no [Mount] section''] \<rparr>
            | Some mountSection \<Rightarrow>
                (let r0 = result\<lparr> WhatValue := getDirectiveValue mountSection ''What'',
                                   WhereValue := getDirectiveValue mountSection ''Where'',
                                   FSType := getDirectiveValue mountSection ''Type'' \<rparr>;
                     r1 = (if WhatValue r0 = [] then
                             r0\<lparr> WhatMissing := True, mv_Valid := False,
                                 mv_Issues := mv_Issues r0
                                   @ [''Mount unit missing required What= directive''] \<rparr>
                           else r0);
                     r2 = (if WhereValue r1 = [] then
                             r1\<lparr> WhereMissing := True, mv_Valid := False,
                                 mv_Issues := mv_Issues r1
                                   @ [''Mount unit missing required Where= directive''] \<rparr>
                           else r1);
                     r3 = (if WhereValue r2 \<noteq> [] then
                             (let expectedName = pathToMountUnitName (WhereValue r2);
                                  r = r2\<lparr> ExpectedName := expectedName \<rparr>
                              in if Name unit \<noteq> expectedName then
                                   r\<lparr> NameMismatch := True, mv_Valid := False,
                                      mv_Issues := mv_Issues r
                                        @ [''Unit name doesn't match Where= path. Expected: ''
                                           @ expectedName] \<rparr>
                                 else r)
                           else r2);
                     r4 = (if WhatValue r3 \<noteq> [] \<and> \<not> WhatMissing r3
                              \<and> \<not> isNetworkFS (FSType r3) \<and> \<not> isSpecialDevice (WhatValue r3)
                              \<and> \<not> Exists fs (WhatValue r3)
                           then r3\<lparr> DeviceNotFound := True \<rparr>
                           else r3);
                     r5 = (if FSType r4 \<noteq> [] \<and> \<not> isValidFSType (FSType r4) then
                             r4\<lparr> InvalidFSType := True,
                                 mv_Issues := mv_Issues r4
                                   @ [''Unknown filesystem type: '' @ FSType r4] \<rparr>
                           else r4)
                 in r5)))"

subsection \<open>Service validator (directive.go)\<close>

record MissingExec =
  me_Directive :: string
  me_Path :: string
  me_Optional :: bool
  me_Line :: int

record Contradiction =
  Setting :: string
  ConflictsWith :: string
  c_Severity :: string
  c_Description :: string

record ServiceValidation =
  sv_Unit :: string
  ExecStartMissing :: bool
  ExecStartNotFound :: "MissingExec list"
  ExecStartNotExec :: "MissingExec list"
  UserNotFound :: string
  GroupNotFound :: string
  ContradictorySandbox :: "Contradiction list"
  TypeIssues :: "string list"
  sv_Valid :: bool

definition ServiceValidation_init :: "string \<Rightarrow> ServiceValidation" where
  "ServiceValidation_init n =
     \<lparr> sv_Unit = n, ExecStartMissing = False, ExecStartNotFound = [], ExecStartNotExec = [],
       UserNotFound = [], GroupNotFound = [], ContradictorySandbox = [], TypeIssues = [],
       sv_Valid = True \<rparr>"

text \<open>
  The helpers \<open>validateExecPath\<close>, \<open>checkContradictorySandboxing\<close> and \<open>validateServiceType\<close>
  are parameters of the validator; its own body is modelled statement by statement.
\<close>

definition execDirectives :: "string list" where
  "execDirectives =
     [''ExecStart'', ''ExecStartPre'', ''ExecStartPost'', ''ExecStop'', ''ExecStopPost'', ''ExecReload'']"

definition exec_findings ::
  "(string \<Rightarrow> string \<Rightarrow> int \<Rightarrow> FileSystem \<Rightarrow> MissingExec list \<times> MissingExec list)
     \<Rightarrow> Section \<Rightarrow> FileSystem \<Rightarrow> (MissingExec list \<times> MissingExec list) list" where
  "exec_findings validateExecPath serviceSection fs =
     concat (map (\<lambda>directive.
        (case Directives serviceSection directive of
           Some dirs \<Rightarrow> map (\<lambda>d. validateExecPath (d_Value d) directive (d_Line d) fs) dirs
         | None \<Rightarrow> [])) execDirectives)"

definition ValidateService ::
  "(string \<Rightarrow> string \<Rightarrow> int \<Rightarrow> FileSystem \<Rightarrow> MissingExec list \<times> MissingExec list)
     \<Rightarrow> (UnitFile \<Rightarrow> Section \<Rightarrow> Contradiction list)
     \<Rightarrow> (Section \<Rightarrow> UnitFile \<Rightarrow> string list)
     \<Rightarrow> UnitFile \<Rightarrow> FileSystem \<Rightarrow> ServiceValidation" where
  "ValidateService validateExecPath checkContradictorySandboxing validateServiceType unit fs =
     (let result = ServiceValidation_init (Name unit)
      in if UnitType unit \<noteq> ''service'' then result
         else
           (case Sections unit ''Service'' of
              None \<Rightarrow> result\<lparr> sv_Valid := False \<rparr>
            | Some serviceSection \<Rightarrow>
                (let execStartDirs =
                       (case Directives serviceSection ''ExecStart'' of Some ds \<Rightarrow> ds | None \<Rightarrow> []);
                     serviceType = getDirectiveValue serviceSection ''Type'';
                     r1 = (if length execStartDirs = 0 \<and> serviceType \<noteq> ''oneshot''
                           then result\<lparr> ExecStartMissing := True, sv_Valid := False \<rparr>
                           else result);
                     found = exec_findings validateExecPath serviceSection fs;
                     r2 = r1\<lparr> ExecStartNotFound := ExecStartNotFound r1 @ concat (map fst found),
                              ExecStartNotExec := ExecStartNotExec r1 @ concat (map snd found) \<rparr>;
                     userVal = getDirectiveValue serviceSection ''User'';
                     r3 = (if userVal \<noteq> [] \<and> \<not> UserExists fs userVal
                           then r2\<lparr> UserNotFound := userVal, sv_Valid := False \<rparr>
                           else r2);
                     groupVal = getDirectiveValue serviceSection ''Group'';
                     r4 = (if groupVal \<noteq> [] \<and> \<not> GroupExists fs groupVal
                           then r3\<lparr> GroupNotFound := groupVal, sv_Valid := False \<rparr>
                           else r3);
                     r5 = r4\<lparr> ContradictorySandbox := checkContradictorySandboxing unit serviceSection \<rparr>;
                     r6 = r5\<lparr> TypeIssues := validateServiceType serviceSection unit \<rparr>
                 in if length (ExecStartNotFound r6) > 0 \<or> length (ContradictorySandbox r6) > 0
                       \<or> length (TypeIssues r6) > 0
                    then r6\<lparr> sv_Valid := False \<rparr>
                    else r6)))"

subsection \<open>Socket validator (socket.go)\<close>

record InvalidListen =
  il_Directive :: string
  il_Value :: string
  il_Reason :: string
  il_Line :: int

record PortConflict =
  Port :: string
  OtherSocket :: string

record SocketValidation =
  sk_Unit :: string
  MissingService :: bool
  ServiceName :: string
  InvalidListens :: "InvalidListen list"
  PortConflicts :: "PortConflict list"
  sk_Issues :: "string list"
  sk_Valid :: bool

definition SocketValidation_init :: "string \<Rightarrow> SocketValidation" where
  "SocketValidation_init n =
     \<lparr> sk_Unit = n, MissingService = False, ServiceName = [], InvalidListens = [],
       PortConflicts = [], sk_Issues = [], sk_Valid = True \<rparr>"

definition getExpectedServiceName :: "UnitFile \<Rightarrow> Section \<Rightarrow> string" where
  "getExpectedServiceName unit socketSection =
     (let service = getDirectiveValue socketSection ''Service''
      in if service \<noteq> [] then service
         else TrimSuffix (Name unit) ''.socket'' @ ''.service'')"

definition listenDirectives :: "string list" where
  "listenDirectives =
     [''ListenStream'', ''ListenDatagram'', ''ListenSequentialPacket'', ''ListenFIFO'',
      ''ListenSpecial'', ''ListenNetlink'', ''ListenMessageQueue'', ''ListenUSBFunction'']"

text \<open>
  The helper \<open>validateListenValue\<close> is a parameter; it returns a finding or nothing (a nil
  pointer).
\<close>

definition ValidateSocket ::
  "(string \<Rightarrow> string \<Rightarrow> int \<Rightarrow> InvalidListen option)
     \<Rightarrow> UnitFile \<Rightarrow> (string \<rightharpoonup> UnitFile) \<Rightarrow> SocketValidation" where
  "ValidateSocket validateListenValue unit allUnits =
     (let result = SocketValidation_init (Name unit)
      in if UnitType unit \<noteq> ''socket'' then result
         else
           (case Sections unit ''Socket'' of
              None \<Rightarrow>
                result\<lparr> sk_Valid := False,
                        sk_Issues := sk_Issues result @ [''Socket unit has no [Socket] section''] \<rparr>
            | Some socketSection \<Rightarrow>
                (let serviceName = getExpectedServiceName unit socketSection;
                     r1 = result\<lparr> ServiceName := serviceName \<rparr>;
                     r2 = (if allUnits serviceName = None
                           then r1\<lparr> MissingService := True, sk_Valid := False \<rparr>
                           else r1);
                     invalid = concat (map (\<lambda>directive.
                         (case Directives socketSection directive of
                            Some dirs \<Rightarrow>
                              List.map_filter (\<lambda>d. validateListenValue directive (d_Value d) (d_Line d)) dirs
                          | None \<Rightarrow> [])) listenDirectives);
                     r3 = r2\<lparr> InvalidListens := InvalidListens r2 @ invalid \<rparr>;
                     hasListen = list_ex (\<lambda>directive. Directives socketSection directive \<noteq> None)
                                   listenDirectives;
                     r4 = (if \<not> hasListen
                           then r3\<lparr> sk_Issues := sk_Issues r3 @ [''Socket unit has no Listen* directives''],
                                    sk_Valid := False \<rparr>
                           else r3)
                 in if length (InvalidListens r4) > 0 \<or> length (sk_Issues r4) > 0
                    then r4\<lparr> sk_Valid := False \<rparr>
                    else r4)))"

subsection \<open>Directional reachability (breadth-first search)\<close>

text \<open>
  The inner loop over the edges of the current unit marks every unseen target and appends it
  to the queue. The map \<open>visited\<close> is a set of names.
\<close>

fun visit_edges :: "bool \<Rightarrow> Edge list \<Rightarrow> string set \<times> string list \<Rightarrow> string set \<times> string list" where
  "visit_edges fwd [] (visited, queue) = (visited, queue)"
| "visit_edges fwd (e # es) (visited, queue) =
     (let target = (if fwd then To e else From e)
      in if target \<notin> visited
         then visit_edges fwd es (insert target visited, queue @ [target])
         else visit_edges fwd es (visited, queue))"

definition graph_nodes :: "Graph \<Rightarrow> string set" where
  "graph_nodes g = From ` set (allEdges g) \<union> To ` set (allEdges g)"

lemma visit_edges_measure:
  assumes "finite N" and "\<forall>e \<in> set es. (if fwd then To e else From e) \<in> N"
  shows "2 * card (N - fst (visit_edges fwd es (visited, queue)))
            + length (snd (visit_edges fwd es (visited, queue)))
         \<le> 2 * card (N - visited) + length queue"
  using assms(2)
proof (induction es arbitrary: visited queue)
  case Nil
  show ?case by simp
next
  case (Cons e es)
  let ?t = "if fwd then To e else From e"
  from Cons.prems have t: "?t \<in> N" and rest: "\<forall>e \<in> set es. (if fwd then To e else From e) \<in> N"
    by simp_all
  show ?case
  proof (cases "?t \<in> visited")
    case True
    with Cons.IH [OF rest, of visited queue] show ?thesis by (simp add: Let_def)
  next
    case False
    with t have mem: "?t \<in> N - visited" by simp
    have fin: "finite (N - visited)" using assms(1) by simp
    have "N - insert ?t visited = (N - visited) - {?t}" by blast
    then have "card (N - insert ?t visited) = card (N - visited) - 1"
      using fin mem by simp
    moreover have "card (N - visited) \<ge> 1"
      using fin mem by (metis One_nat_def Suc_leI card_gt_0_iff empty_iff)
    ultimately have "2 * card (N - insert ?t visited) + length (queue @ [?t])
        \<le> 2 * card (N - visited) + length queue" by simp
    with Cons.IH [OF rest, of "insert ?t visited" "queue @ [?t]"] False
    show ?thesis by (simp add: Let_def)
  qed
qed

function bfs_loop :: "Graph \<Rightarrow> bool \<Rightarrow> string list \<Rightarrow> string set \<Rightarrow> string set" where
  "bfs_loop g fwd [] visited = visited"
| "bfs_loop g fwd (current # queue) visited =
     (let edges = (if fwd then outgoing g current else incoming g current);
          r = visit_edges fwd edges (visited, queue)
      in bfs_loop g fwd (snd r) (fst r))"
  by pat_completeness auto
termination
proof (relation "measure (\<lambda>(g, fwd, queue, visited). 2 * card (graph_nodes g - visited) + length queue)")
  show "wf (measure (\<lambda>(g, fwd, queue, visited). 2 * card (graph_nodes g - visited) + length queue))"
    by simp
next
  fix g :: Graph and fwd :: bool and current :: string and queue :: "string list"
    and visited :: "string set" and edges r
  assume edges: "edges = (if fwd then outgoing g current else incoming g current)"
    and r: "r = visit_edges fwd edges (visited, queue)"
  have fin: "finite (graph_nodes g)" by (simp add: graph_nodes_def)
  have "\<forall>e \<in> set edges. (if fwd then To e else From e) \<in> graph_nodes g"
    by (auto simp: edges graph_nodes_def outgoing_def incoming_def)
  from visit_edges_measure [OF fin this, of visited queue]
  have "2 * card (graph_nodes g - fst r) + length (snd r)
        \<le> 2 * card (graph_nodes g - visited) + length queue"
    by (simp add: r)
  then show "((g, fwd, snd r, fst r), (g, fwd, current # queue, visited))
      \<in> measure (\<lambda>(g, fwd, queue, visited). 2 * card (graph_nodes g - visited) + length queue)"
    by simp
qed

definition ReachableFrom :: "Graph \<Rightarrow> string \<Rightarrow> string \<Rightarrow> string list" where
  "ReachableFrom g unit direction =
     (let visited = bfs_loop g (direction = ''forward'') [unit] {unit}
      in sorted_list_of_set (visited - {unit}))"

definition TransitiveDependencies :: "Graph \<Rightarrow> string \<Rightarrow> string list" where
  "TransitiveDependencies g unit = ReachableFrom g unit ''forward''"

definition TransitiveDependents :: "Graph \<Rightarrow> string \<Rightarrow> string list" where
  "TransitiveDependents g unit = ReachableFrom g unit ''backward''"

text \<open>
  The relation the search follows: a step leads from a unit along one of its outgoing edges
  (forward) or against one of its incoming edges (backward).
\<close>

definition step :: "Graph \<Rightarrow> bool \<Rightarrow> (string \<times> string) set" where
  "step g fwd =
     {(a, b). \<exists>e \<in> set (allEdges g).
        if fwd then From e = a \<and> To e = b else To e = a \<and> From e = b}"

section \<open>Timeout deadlocks (propagation package)\<close>

text \<open>Decimal rendering of a count, as the verb \<open>%d\<close> of \<open>fmt.Sprintf\<close> prints it.\<close>

function itoa :: "nat \<Rightarrow> string" where
  "itoa n = (if n < 10 then [''0123456789'' ! n] else itoa (n div 10) @ [''0123456789'' ! (n mod 10)])"
  by pat_completeness auto
termination
  by (relation "measure id") auto

record TimeoutDeadlock =
  td_Unit :: string
  td_Description :: string
  td_Severity :: string

definition afterCount :: "Graph \<Rightarrow> string \<Rightarrow> nat" where
  "afterCount g name = length (filter (\<lambda>e. Type e = EdgeAfter) (EdgesFrom g name))"

text \<open>
  The body of the loop over the unit map for one entry: nothing for a nil unit, for a unit
  whose first \<open>JobTimeoutSec\<close> value is empty, or when the counts do not exceed the
  thresholds.
\<close>

definition timeout_deadlock_of :: "Graph \<Rightarrow> string \<Rightarrow> UnitFile option \<Rightarrow> TimeoutDeadlock list" where
  "timeout_deadlock_of g name unit =
     (case unit of
        None \<Rightarrow> []
      | Some u \<Rightarrow>
          (let jobTimeout = GetDirective u ''Unit'' ''JobTimeoutSec''
           in if jobTimeout = [] then []
              else
                (let transDeps = TransitiveDependencies g name
                 in if length transDeps > 10 \<and> afterCount g name > 3
                    then [\<lparr> td_Unit = name,
                            td_Description = name @ '' has JobTimeoutSec='' @ jobTimeout @ '' but ''
                              @ itoa (length transDeps) @ '' transitive dependencies (''
                              @ itoa (afterCount g name) @ '' direct After=). ''
                              @ ''Job timeout starts at transaction begin, so waiting for dependencies ''
                              @ ''consumes the timeout budget.'',
                            td_Severity = ''medium'' \<rparr>]
                    else [])))"

text \<open>
  The unit map is given as the list of its entries in the order the loop visits them; a value
  is a pointer and may be nil.
\<close>

definition DetectTimeoutDeadlocks :: "Graph \<Rightarrow> (string \<times> UnitFile option) list \<Rightarrow> TimeoutDeadlock list" where
  "DetectTimeoutDeadlocks g us = concat (map (\<lambda>(name, unit). timeout_deadlock_of g name unit) us)"

section \<open>Cascade risks (timing package)\<close>

text \<open>A \<open>time.Duration\<close> is a signed count of nanoseconds.\<close>

definition Second :: int where
  "Second = 1000000000"

record TimeoutConfig =
  tc_Unit :: string
  TimeoutStartSec :: int
  TimeoutStopSec :: int
  TimeoutAbortSec :: int
  JobTimeoutSec :: int
  RestartSec :: int
  Source :: string

record CascadeRisk =
  cr_Unit :: string
  CriticalPath :: int
  OwnTimeout :: int
  Risk :: string
  cr_Description :: string
  Recommendation :: string
  cr_File :: string
  cr_Line :: int

text \<open>
  \<open>FormatDuration\<close> prints a duration through the library method \<open>Duration.String\<close>, the
  parameter \<open>dstring\<close>; a duration of at least one second is first rounded to whole seconds,
  halves upwards, saturating at the largest duration.
\<close>

definition Duration_Round_Second :: "int \<Rightarrow> int" where
  "Duration_Round_Second d =
     (let r = d mod Second
      in if r + r < Second then d - r
         else if d + Second - r \<le> 9223372036854775807 then d + Second - r
         else 9223372036854775807)"

definition FormatDuration :: "(int \<Rightarrow> string) \<Rightarrow> int \<Rightarrow> string" where
  "FormatDuration dstring d =
     (if d = 0 then ''infinity''
      else if d < Second then dstring d
      else dstring (Duration_Round_Second d))"

definition networkTargets :: "string list" where
  "networkTargets = [''network-online.target'', ''network.target'']"

definition network_edge :: "Edge \<Rightarrow> string \<Rightarrow> bool" where
  "network_edge edge nt =
     (To edge = nt \<and> (Type edge = EdgeAfter \<or> Type edge = EdgeRequires \<or> Type edge = EdgeWants))"

text \<open>
  The two nested loops over the edges and the network targets: the flag and the name of the
  target of the last matching edge.
\<close>

fun scan_network_edges :: "Edge list \<Rightarrow> bool \<times> string \<Rightarrow> bool \<times> string" where
  "scan_network_edges [] acc = acc"
| "scan_network_edges (edge # edges) acc =
     scan_network_edges edges
       (case find (network_edge edge) networkTargets of
          Some nt \<Rightarrow> (True, nt)
        | None \<Rightarrow> acc)"

definition network_risk_of ::
  "(int \<Rightarrow> string) \<Rightarrow> Graph \<Rightarrow> (string \<rightharpoonup> TimeoutConfig) \<Rightarrow> UnitFile \<Rightarrow> CascadeRisk list" where
  "network_risk_of dstring g timeouts unit =
     (let edges = EdgesFrom g (Name unit);
          (dependsOnNetwork, networkTarget) = scan_network_edges edges (False, [])
      in if \<not> dependsOnNetwork then []
         else
           (case timeouts (Name unit) of
              None \<Rightarrow> []
            | Some tc \<Rightarrow>
                if TimeoutStartSec tc > 0 \<and> TimeoutStartSec tc < 30 * Second
                then
                  (let risk = (if TimeoutStartSec tc < 10 * Second then ''critical''
                               else if TimeoutStartSec tc \<ge> 20 * Second then ''medium''
                               else ''high'')
                   in [\<lparr> cr_Unit = Name unit,
                          CriticalPath = 0,
                          OwnTimeout = TimeoutStartSec tc,
                          Risk = risk,
                          cr_Description = Name unit @ '' depends on '' @ networkTarget
                            @ '' but has TimeoutStartSec='' @ FormatDuration dstring (TimeoutStartSec tc)
                            @ ''. Network initialization can take 30+ seconds on slow/unreliable networks.'',
                          Recommendation =
                            ''Increase TimeoutStartSec to at least 60s for network-dependent services'',
                          cr_File = Source tc,
                          cr_Line = 0 \<rparr>])
                else []))"

definition detectNetworkDependencyRisks ::
  "(int \<Rightarrow> string) \<Rightarrow> Graph \<Rightarrow> (string \<rightharpoonup> TimeoutConfig) \<Rightarrow> CascadeRisk list" where
  "detectNetworkDependencyRisks dstring g timeouts =
     concat (map (network_risk_of dstring g timeouts) (Units g))"

text \<open>The condition the specification names: an After, Requires or Wants edge to a network target.\<close>

definition depends_on_network :: "Graph \<Rightarrow> string \<Rightarrow> bool" where
  "depends_on_network g name =
     (\<exists>e \<in> set (EdgesFrom g name).
        (To e = ''network-online.target'' \<or> To e = ''network.target'')
        \<and> (Type e = EdgeAfter \<or> Type e = EdgeRequires \<or> Type e = EdgeWants))"

definition network_risk_class :: "int \<Rightarrow> string" where
  "network_risk_class t =
     (if t < 10 * Second then ''critical'' else if t \<ge> 20 * Second then ''medium'' else ''high'')"

section \<open>Failure propagation (internal/propagation/failure.go)\<close>

record PropagationSemantics =
  ps_EdgeType :: EdgeType
  StartFailure :: bool
  StopPropagates :: bool
  Immediate :: bool
  ps_Description :: string

fun Semantics :: "EdgeType \<rightharpoonup> PropagationSemantics" where
  "Semantics EdgeRequires =
     Some \<lparr> ps_EdgeType = EdgeRequires, StartFailure = True, StopPropagates = False,
            Immediate = False,
            ps_Description = ''Start failure propagates to dependent; stop does not propagate'' \<rparr>"
| "Semantics EdgeRequisite =
     Some \<lparr> ps_EdgeType = EdgeRequisite, StartFailure = True, StopPropagates = False,
            Immediate = True,
            ps_Description = ''Dependency must already be active; failure is immediate'' \<rparr>"
| "Semantics EdgeBindsTo =
     Some \<lparr> ps_EdgeType = EdgeBindsTo, StartFailure = True, StopPropagates = True,
            Immediate = False,
            ps_Description = ''Start failure propagates; stop also propagates (strongest binding)'' \<rparr>"
| "Semantics EdgeWants =
     Some \<lparr> ps_EdgeType = EdgeWants, StartFailure = False, StopPropagates = False,
            Immediate = False,
            ps_Description = ''Soft dependency; failures do not propagate'' \<rparr>"
| "Semantics EdgePartOf =
     Some \<lparr> ps_EdgeType = EdgePartOf, StartFailure = False, StopPropagates = True,
            Immediate = False,
            ps_Description = ''Stop propagates (for grouped services); start failure does not'' \<rparr>"
| "Semantics EdgeConflicts =
     Some \<lparr> ps_EdgeType = EdgeConflicts, StartFailure = False, StopPropagates = False,
            Immediate = True,
            ps_Description = ''Mutually exclusive; starting one stops the other'' \<rparr>"
| "Semantics _ = None"

definition GetSemantics :: "EdgeType \<Rightarrow> PropagationSemantics" where
  "GetSemantics et =
     (case Semantics et of
        Some sem \<Rightarrow> sem
      | None \<Rightarrow> \<lparr> ps_EdgeType = et, StartFailure = False, StopPropagates = False,
                   Immediate = False, ps_Description = ''No propagation defined'' \<rparr>)"

record AffectedUnit =
  au_Name :: string
  Impact :: string
  PropagationPath :: "string list"
  au_EdgeType :: EdgeType
  au_Severity :: string

record FailureImpact =
  FailedUnit :: string
  AffectedUnits :: "AffectedUnit list"
  TotalAffected :: nat
  CriticalChain :: "string list"

text \<open>
  The closure \<open>propagate\<close> reads and writes two variables of \<open>SimulateFailure\<close>: the map
  \<open>visited\<close> and the slice \<open>impact.AffectedUnits\<close>. They are the state that every call takes
  and returns. The closure calls itself from inside its loop over the edges, so the recursion
  is bounded by a counter of nested calls: \<open>None\<close> means the counter ran out.
\<close>

record PropState =
  visited :: "string set"
  affected :: "AffectedUnit list"

definition newImpact_of :: "string \<Rightarrow> PropagationSemantics \<Rightarrow> string \<times> bool" where
  "newImpact_of impactType sem =
     (if impactType = ''fail'' then (if StartFailure sem then (''fail_to_start'', True) else ([], False))
      else if impactType = ''stop'' then (if StopPropagates sem then (''stop'', True) else ([], False))
      else ([], False))"

definition edge_severity :: "EdgeType \<Rightarrow> string" where
  "edge_severity t =
     (let severity = ''medium'';
          severity = (if t = EdgeBindsTo \<or> t = EdgeRequires then ''high'' else severity);
          severity = (if t = EdgeRequisite then ''critical'' else severity)
      in severity)"

fun propagate :: "nat \<Rightarrow> Graph \<Rightarrow> string \<Rightarrow> string list \<Rightarrow> string \<Rightarrow> PropState \<Rightarrow> PropState option"
  and propagate_edges ::
    "nat \<Rightarrow> Graph \<Rightarrow> Edge list \<Rightarrow> string list \<Rightarrow> string \<Rightarrow> PropState \<Rightarrow> PropState option" where
  "propagate 0 g unit path impactType st = None"
| "propagate (Suc n) g unit path impactType st =
     (if unit \<in> visited st then Some st
      else propagate_edges n g (EdgesTo g unit) path impactType
             (st\<lparr> visited := insert unit (visited st) \<rparr>))"
| "propagate_edges n g [] path impactType st = Some st"
| "propagate_edges n g (edge # edges) path impactType st =
     (let sem = GetSemantics (Type edge);
          dependent = From edge;
          newPath = path @ [dependent];
          (newImpact, shouldPropagate) = newImpact_of impactType sem
      in if shouldPropagate \<and> dependent \<notin> visited st
         then
           (case propagate n g dependent newPath newImpact
                   (st\<lparr> affected := affected st
                          @ [\<lparr> au_Name = dependent, Impact = newImpact, PropagationPath = newPath,
                                au_EdgeType = Type edge, au_Severity = edge_severity (Type edge) \<rparr>] \<rparr>) of
              None \<Rightarrow> None
            | Some st' \<Rightarrow> propagate_edges n g edges path impactType st')
         else propagate_edges n g edges path impactType st)"

text \<open>The loop that keeps the first longest path among the units of severity critical or high.\<close>

definition longest_critical :: "AffectedUnit list \<Rightarrow> string list" where
  "longest_critical aus =
     foldl (\<lambda>longestCritical a.
              if (au_Severity a = ''critical'' \<or> au_Severity a = ''high'')
                 \<and> length (PropagationPath a) > length longestCritical
              then PropagationPath a else longestCritical) [] aus"

definition SimulateFailure :: "nat \<Rightarrow> Graph \<Rightarrow> string \<Rightarrow> FailureImpact option" where
  "SimulateFailure depth g failedUnit =
     (case propagate depth g failedUnit [failedUnit] ''fail'' \<lparr> visited = {}, affected = [] \<rparr> of
        None \<Rightarrow> None
      | Some st1 \<Rightarrow>
          (case propagate depth g failedUnit [failedUnit] ''stop''
                  (st1\<lparr> visited := {failedUnit} \<rparr>) of
             None \<Rightarrow> None
           | Some st2 \<Rightarrow>
               Some \<lparr> FailedUnit = failedUnit,
                      AffectedUnits = affected st2,
                      TotalAffected = length (affected st2),
                      CriticalChain = longest_critical (affected st2) \<rparr>))"

text \<open>
  What it means for a recorded unit to have been reached from the failed unit along edges
  whose semantics satisfy \<open>flag\<close>: its path starts at the failed unit, ends at the unit, each
  step of the path follows an edge of the graph backwards whose type satisfies \<open>flag\<close>, and
  the recorded edge type is the type of an edge of the last step.
\<close>

fun chain_along :: "Graph \<Rightarrow> (PropagationSemantics \<Rightarrow> bool) \<Rightarrow> string list \<Rightarrow> bool" where
  "chain_along g flag (a # b # rest) =
     (list_ex (\<lambda>e. To e = a \<and> From e = b \<and> flag (GetSemantics (Type e))) (allEdges g)
      \<and> chain_along g flag (b # rest))"
| "chain_along g flag _ = True"

definition reached_along ::
  "Graph \<Rightarrow> string \<Rightarrow> (PropagationSemantics \<Rightarrow> bool) \<Rightarrow> AffectedUnit \<Rightarrow> bool" where
  "reached_along g failedUnit flag au =
     (length (PropagationPath au) \<ge> 2
      \<and> hd (PropagationPath au) = failedUnit
      \<and> last (PropagationPath au) = au_Name au
      \<and> chain_along g flag (PropagationPath au)
      \<and> flag (GetSemantics (au_EdgeType au))
      \<and> list_ex (\<lambda>e. To e = last (butlast (PropagationPath au)) \<and> From e = au_Name au
                     \<and> Type e = au_EdgeType au) (allEdges g))"

text \<open>
  The flag a sweep of a given impact type tests on the semantics of an edge, the impact it
  records, and what every record made during such a sweep must satisfy.
\<close>

definition sweep_flag :: "string \<Rightarrow> PropagationSemantics \<Rightarrow> bool" where
  "sweep_flag impactType sem =
     (if impactType = ''fail'' then StartFailure sem
      else if impactType = ''stop'' then StopPropagates sem
      else False)"

definition sweep_impact :: "string \<Rightarrow> string" where
  "sweep_impact impactType =
     (if impactType = ''fail'' then ''fail_to_start''
      else if impactType = ''stop'' then ''stop''
      else [])"

definition record_ok :: "Graph \<Rightarrow> string \<Rightarrow> string \<Rightarrow> AffectedUnit \<Rightarrow> bool" where
  "record_ok g failedUnit impactType au =
     (sweep_flag impactType (GetSemantics (au_EdgeType au))
      \<and> Impact au = sweep_impact impactType
      \<and> au_Severity au = edge_severity (au_EdgeType au)
      \<and> reached_along g failedUnit (sweep_flag impactType) au)"

section \<open>Duration parser (timing package)\<close>

text \<open>
  \<open>ParseDuration\<close> returns a duration in nanoseconds and an error. Two library routines work
  on floating-point numbers: \<open>strconv.ParseFloat\<close> and the conversion of a float product to a
  duration. The model computes with integers where these are exact and answers \<open>None\<close>,
  meaning that it does not determine the result, where they need not be:
  \<^item> a numeral with a non-zero fractional part, or a number that is not a float without
    rounding, or a total beyond the largest duration;
  \<^item> input that is, or may be, a float in another spelling (a sign, an exponent, a
    hexadecimal mantissa, underscores, \<open>inf\<close>, \<open>nan\<close>);
  \<^item> input that starts or ends with a byte outside ASCII, which \<open>strings.TrimSpace\<close> may
    trim as Unicode white space.
\<close>

definition is_digit :: "char \<Rightarrow> bool" where
  "is_digit c = (CHR ''0'' \<le> c \<and> c \<le> CHR ''9'')"

definition is_space :: "char \<Rightarrow> bool" where
  "is_space c = (c = CHR '' '' \<or> c = CHR 0x09 \<or> c = CHR 0x0A \<or> c = CHR 0x0B \<or> c = CHR 0x0C
                 \<or> c = CHR 0x0D)"

text \<open>The class \<open>\s\<close> of the regular expression: no vertical tab.\<close>

definition is_re_space :: "char \<Rightarrow> bool" where
  "is_re_space c = (c = CHR '' '' \<or> c = CHR 0x09 \<or> c = CHR 0x0A \<or> c = CHR 0x0C \<or> c = CHR 0x0D)"

definition TrimSpace :: "string \<Rightarrow> string option" where
  "TrimSpace s =
     (let t = rev (dropWhile is_space (rev (dropWhile is_space s)))
      in if t \<noteq> [] \<and> (of_char (hd t) \<ge> (128 :: nat) \<or> of_char (last t) \<ge> (128 :: nat))
         then None else Some t)"

definition digit_value :: "char \<Rightarrow> int" where
  "digit_value c = of_char c - 48"

definition decimal_value :: "string \<Rightarrow> int" where
  "decimal_value ds = foldl (\<lambda>n c. 10 * n + digit_value c) 0 ds"

datatype float_result = Float_value int | Float_error | Float_other

text \<open>
  The numerals the regular expression hands to \<open>strconv.ParseFloat\<close>: digits, or digits, a
  dot and digits. The value is exact when the fraction is zero.
\<close>

definition numeral_value :: "string \<Rightarrow> float_result" where
  "numeral_value num =
     (let ip = takeWhile is_digit num;
          rest = dropWhile is_digit num
      in if ip = [] then Float_other
         else if rest = [] then Float_value (decimal_value ip)
         else if hd rest = CHR ''.'' \<and> tl rest \<noteq> [] \<and> list_all is_digit (tl rest)
         then (if list_all (\<lambda>c. c = CHR ''0'') (tl rest) then Float_value (decimal_value ip)
               else Float_other)
         else Float_other)"

definition lower_ascii :: "char \<Rightarrow> char" where
  "lower_ascii c = (if CHR ''A'' \<le> c \<and> c \<le> CHR ''Z'' then char_of (of_char c + (32 :: nat)) else c)"

text \<open>
  \<open>strconv.ParseFloat\<close> on the whole input. After an optional sign a float is \<open>inf\<close>,
  \<open>infinity\<close> or \<open>nan\<close> in any case, or starts with \<open>0x\<close>, or consists of digits, dots,
  underscores, \<open>e\<close>, \<open>E\<close> and signs; any other input is a syntax error.
\<close>

definition ParseFloat :: "string \<Rightarrow> float_result" where
  "ParseFloat s =
     (let t = (if s \<noteq> [] \<and> (hd s = CHR ''+'' \<or> hd s = CHR ''-'') then tl s else s);
          l = map lower_ascii t
      in if l = ''inf'' \<or> l = ''infinity'' \<or> l = ''nan'' then Float_other
         else if take 2 l = ''0x'' then Float_other
         else if list_all (\<lambda>c. is_digit c \<or> c \<in> set ''._eE+-'') t
         then (if t = s then numeral_value s else Float_other)
         else Float_error)"

text \<open>
  The conversion \<open>time.Duration(num * float64(multiplier))\<close> for a whole number. A whole
  number is a float without rounding when its odd part is below \<open>2^53\<close>; the product of two
  floats is then the exact product when that is such a number too, and the conversion to a
  duration is exact below \<open>2^63\<close>.
\<close>

function odd_part :: "int \<Rightarrow> int" where
  "odd_part n = (if n \<le> 0 \<or> odd n then n else odd_part (n div 2))"
  by pat_completeness auto
termination
  by (relation "measure nat") auto

definition float_exact :: "int \<Rightarrow> bool" where
  "float_exact n = (0 \<le> n \<and> odd_part n < 9007199254740992)"

definition float_duration :: "int \<Rightarrow> int \<Rightarrow> int option" where
  "float_duration num multiplier =
     (let p = num * multiplier
      in if float_exact num \<and> float_exact multiplier \<and> float_exact p
            \<and> p \<le> 9223372036854775807
         then Some p else None)"

text \<open>
  The alternatives of the unit group of the regular expression, in the order they are
  written: a word, and whether an optional \<open>s\<close> follows it. The first alternative that matches
  at the position is taken.
\<close>

definition unit_alternatives :: "(string \<times> bool) list" where
  "unit_alternatives =
     [(''usec'', False), (''us'', False), (''msec'', False), (''ms'', False),
      (''second'', True), (''sec'', False), (''s'', False),
      (''minute'', True), (''min'', False), (''m'', False),
      (''hour'', True), (''hr'', False), (''h'', False),
      (''day'', True), (''d'', False), (''week'', True), (''w'', False),
      (''month'', True), (''M'', False), (''year'', True), (''y'', False)]"

definition match_unit :: "string \<Rightarrow> string" where
  "match_unit rest =
     (case find (\<lambda>(w, opt). HasPrefix rest w) unit_alternatives of
        None \<Rightarrow> []
      | Some (w, opt) \<Rightarrow>
          if opt \<and> HasPrefix (drop (length w) rest) ''s'' then w @ ''s'' else w)"

text \<open>
  One match of the expression at a position that holds a digit: the numeral, the unit, and
  the input after the match.
\<close>

definition match_at :: "string \<Rightarrow> string \<times> string \<times> string" where
  "match_at s =
     (let ip = takeWhile is_digit s;
          r1 = dropWhile is_digit s;
          frac = (if r1 \<noteq> [] \<and> hd r1 = CHR ''.'' \<and> tl r1 \<noteq> [] \<and> is_digit (hd (tl r1))
                  then CHR ''.'' # takeWhile is_digit (tl r1) else []);
          r2 = drop (length frac) r1;
          r3 = dropWhile is_re_space r2;
          u = match_unit r3
      in (ip @ frac, u, drop (length u) r3))"

lemma match_at_shorter:
  assumes "s \<noteq> []" and "is_digit (hd s)"
  shows "length (snd (snd (match_at s))) < length s"
proof -
  define r1 where "r1 = dropWhile is_digit s"
  define frac where "frac = (if r1 \<noteq> [] \<and> hd r1 = CHR ''.'' \<and> tl r1 \<noteq> [] \<and> is_digit (hd (tl r1))
                  then CHR ''.'' # takeWhile is_digit (tl r1) else [])"
  define r3 where "r3 = dropWhile is_re_space (drop (length frac) r1)"
  from assms obtain c cs where s: "s = c # cs" and c: "is_digit c" by (cases s) auto
  have "length (dropWhile is_digit cs) \<le> length cs" by (rule length_dropWhile_le)
  then have a: "length r1 < length s" by (simp add: r1_def s c)
  have "length r3 \<le> length (drop (length frac) r1)"
    unfolding r3_def by (rule length_dropWhile_le)
  then have b: "length r3 \<le> length r1" by simp
  have "snd (snd (match_at s)) = drop (length (match_unit r3)) r3"
    unfolding match_at_def Let_def r1_def frac_def r3_def by (simp only: snd_conv)
  then have "length (snd (snd (match_at s))) \<le> length r3" by simp
  with a b show ?thesis by simp
qed

function FindAllStringSubmatch :: "string \<Rightarrow> (string \<times> string) list" where
  "FindAllStringSubmatch s =
     (if s = [] then []
      else if is_digit (hd s)
      then (fst (match_at s), fst (snd (match_at s))) # FindAllStringSubmatch (snd (snd (match_at s)))
      else FindAllStringSubmatch (tl s))"
  by pat_completeness auto
termination
  by (relation "measure length") (simp_all add: match_at_shorter)

definition Microsecond :: int where "Microsecond = 1000"
definition Millisecond :: int where "Millisecond = 1000000"
definition Minute :: int where "Minute = 60 * Second"
definition Hour :: int where "Hour = 60 * Minute"

definition unit_multiplier :: "string \<Rightarrow> int" where
  "unit_multiplier u =
     (let l = map lower_ascii u
      in if l = ''usec'' \<or> l = ''us'' then Microsecond
         else if l = ''msec'' \<or> l = ''ms'' then Millisecond
         else if l = ''seconds'' \<or> l = ''second'' \<or> l = ''sec'' \<or> l = ''s'' \<or> l = [] then Second
         else if l = ''minutes'' \<or> l = ''minute'' \<or> l = ''min'' \<or> l = ''m'' then Minute
         else if l = ''hours'' \<or> l = ''hour'' \<or> l = ''hr'' \<or> l = ''h'' then Hour
         else if l = ''days'' \<or> l = ''day'' \<or> l = ''d'' then 24 * Hour
         else if l = ''weeks'' \<or> l = ''week'' \<or> l = ''w'' then 7 * 24 * Hour
         else if l = ''months'' \<or> l = ''month'' then 30 * 24 * Hour
         else if l = ''years'' \<or> l = ''year'' \<or> l = ''y'' then 365 * 24 * Hour
         else Second)"

text \<open>The loop over the matches: the running total, or \<open>None\<close> where the model stops.\<close>

fun sum_matches :: "(string \<times> string) list \<Rightarrow> int \<Rightarrow> int option" where
  "sum_matches [] acc = Some acc"
| "sum_matches ((numStr, u) # ms) acc =
     (case numeral_value numStr of
        Float_value num \<Rightarrow>
          (case float_duration num (unit_multiplier u) of
             None \<Rightarrow> None
           | Some d \<Rightarrow>
               if acc + d \<le> 9223372036854775807 then sum_matches ms (acc + d) else None)
      | _ \<Rightarrow> None)"

text \<open>The error of \<open>time.ParseDuration\<close>, which quotes its input.\<close>

datatype go_error = Invalid_duration string

datatype duration_result = Duration int "go_error option"

definition parseSystemdTimeSpan :: "string \<Rightarrow> duration_result option" where
  "parseSystemdTimeSpan s0 =
     (case TrimSpace s0 of
        None \<Rightarrow> None
      | Some s \<Rightarrow>
          if s = [] then Some (Duration 0 None)
          else
            (let matches = FindAllStringSubmatch s
             in if length matches = 0
                then Some (Duration 0 (Some (Invalid_duration s)))
                else (case sum_matches matches 0 of
                        None \<Rightarrow> None
                      | Some t \<Rightarrow> Some (Duration t None))))"

definition ParseDuration :: "string \<Rightarrow> duration_result option" where
  "ParseDuration s0 =
     (case TrimSpace s0 of
        None \<Rightarrow> None
      | Some s \<Rightarrow>
          if s = [] \<or> s = ''infinity'' \<or> s = ''0'' then Some (Duration 0 None)
          else
            (case ParseFloat s of
               Float_value num \<Rightarrow>
                 (case float_duration num Second of
                    None \<Rightarrow> None
                  | Some d \<Rightarrow> Some (Duration d None))
             | Float_other \<Rightarrow> None
             | Float_error \<Rightarrow> parseSystemdTimeSpan s))"

section \<open>Sample inputs\<close>

definition demo_unit :: UnitFile where
  "demo_unit =
     \<lparr> Name = ''app.service'', Path = ''/etc/systemd/system/app.service'', UnitType = ''service'',
       Sections = [''Service'' \<mapsto>
         \<lparr> s_Name = ''Service'',
           Directives = [''ExecStartPre'' \<mapsto>
             [\<lparr> d_Key = ''ExecStartPre'', d_Value = ''/bin/a'', d_Line = 3 \<rparr>,
              \<lparr> d_Key = ''ExecStartPre'', d_Value = ''/bin/b'', d_Line = 4 \<rparr>]] \<rparr>],
       Raw = '''' \<rparr>"

text \<open>The three-unit cycle of the end-to-end scenarios: a, b and c each require the next.\<close>

definition edge :: "string \<Rightarrow> EdgeType \<Rightarrow> string \<Rightarrow> Edge" where
  "edge a t b = \<lparr> From = a, To = b, Type = t, File = '''', Line = 0, Implicit = False \<rparr>"

definition cycle_graph :: Graph where
  "cycle_graph =
     \<lparr> units = [],
       allEdges = [edge ''a.service'' EdgeRequires ''b.service'',
                   edge ''b.service'' EdgeRequires ''c.service'',
                   edge ''c.service'' EdgeRequires ''a.service''] \<rparr>"

definition cycle_nodes :: "nat \<rightharpoonup> string" where
  "cycle_nodes = [0 \<mapsto> ''a.service'', 1 \<mapsto> ''b.service'', 2 \<mapsto> ''c.service'']"

definition cycle_sccs :: "nat list list" where
  "cycle_sccs = [[2, 1, 0]]"


text \<open>
  Two cycles and an edge between them: a and b are ordered after each other, c and d want
  each other, and a requires c.
\<close>

definition two_cycles_graph :: Graph where
  "two_cycles_graph =
     \<lparr> units = [],
       allEdges = [edge ''a.service'' EdgeAfter ''b.service'',
                   edge ''b.service'' EdgeAfter ''a.service'',
                   edge ''a.service'' EdgeRequires ''c.service'',
                   edge ''c.service'' EdgeWants ''d.service'',
                   edge ''d.service'' EdgeWants ''c.service'',
                   edge ''d.service'' EdgeAfter ''c.service''] \<rparr>"

definition two_cycles_nodes :: "nat \<rightharpoonup> string" where
  "two_cycles_nodes =
     [0 \<mapsto> ''a.service'', 1 \<mapsto> ''b.service'', 2 \<mapsto> ''c.service'', 3 \<mapsto> ''d.service'']"

definition two_cycles_sccs :: "nat list list" where
  "two_cycles_sccs = [[3, 2], [1, 0]]"

text \<open>A graph with three references to units that were never parsed.\<close>

definition demo_named :: "string \<Rightarrow> UnitFile" where
  "demo_named n = \<lparr> Name = n, Path = '''', UnitType = ''service'', Sections = Map.empty, Raw = '''' \<rparr>"

definition edge_at :: "string \<Rightarrow> EdgeType \<Rightarrow> string \<Rightarrow> string \<Rightarrow> int \<Rightarrow> Edge" where
  "edge_at a t b f l = \<lparr> From = a, To = b, Type = t, File = f, Line = l, Implicit = False \<rparr>"

definition dangling_graph :: Graph where
  "dangling_graph =
     \<lparr> units = [(''app.service'', demo_named ''app.service''),
                (''web.service'', demo_named ''web.service'')],
       allEdges = [edge_at ''web.service'' EdgeAfter ''gone.service''
                     ''/etc/systemd/system/web.service'' 2,
                   edge_at ''app.service'' EdgeWants ''gone.service''
                     ''/etc/systemd/system/app.service'' 3,
                   edge_at ''web.service'' EdgeRequires ''app.service''
                     ''/etc/systemd/system/web.service'' 3,
                   edge_at ''app.service'' EdgeRequires ''missing-db.service''
                     ''/etc/systemd/system/app.service'' 4] \<rparr>"

text \<open>A rule engine that reports one low and one high issue for every unit.\<close>

definition demo_issue :: "Severity \<Rightarrow> string \<Rightarrow> Issue" where
  "demo_issue s u =
     \<lparr> RuleID = ''R'', RuleName = ''rule'', i_Severity = s, i_Category = CategorySecurity,
       Tags = [], i_Unit = u, i_File = '''', i_Line = None, Description = '''',
       Suggestion = '''', References = [] \<rparr>"

definition demo_engine :: "unit RuleEngine" where
  "demo_engine =
     \<lparr> RunAll = (\<lambda>ctx. [demo_issue SeverityLow (Name (ctx_Unit ctx)),
                        demo_issue SeverityHigh (Name (ctx_Unit ctx))]),
       RunFiltered = (\<lambda>ctx c s t. []),
       Count = 2 \<rparr>"

definition demo_options :: Options where
  "demo_options = \<lparr> o_Category = None, o_MinSeverity = None, o_Tags = [] \<rparr>"

definition demo_loaded :: "(string \<times> UnitFile) list" where
  "demo_loaded = [(''b.service'', demo_named ''b.service''), (''a.service'', demo_named ''a.service'')]"

definition demo_result :: ScanResult where
  "demo_result = projr (Scan demo_engine () demo_options (Inr demo_loaded))"

text \<open>A target unit handed to the three validators, with a probe that finds nothing.\<close>

definition demo_target :: UnitFile where
  "demo_target =
     \<lparr> Name = ''multi-user.target'', Path = ''/lib/systemd/system/multi-user.target'',
       UnitType = ''target'',
       Sections = [''Unit'' \<mapsto> \<lparr> s_Name = ''Unit'', Directives = Map.empty \<rparr>],
       Raw = '''' \<rparr>"

definition demo_fs :: FileSystem where
  "demo_fs =
     \<lparr> Exists = (\<lambda>_. False), IsExecutable = (\<lambda>_. False), IsDirectory = (\<lambda>_. False),
       UserExists = (\<lambda>_. False), GroupExists = (\<lambda>_. False) \<rparr>"

text \<open>
  A unit with a job timeout in front of ten dependencies, three of them ordered after, and
  the same unit with one more dependency ordered after.
\<close>

definition job_unit :: UnitFile where
  "job_unit =
     \<lparr> Name = ''u.service'', Path = ''/etc/systemd/system/u.service'', UnitType = ''service'',
       Sections = [''Unit'' \<mapsto>
         \<lparr> s_Name = ''Unit'',
           Directives = [''JobTimeoutSec'' \<mapsto>
             [\<lparr> d_Key = ''JobTimeoutSec'', d_Value = ''30s'', d_Line = 2 \<rparr>]] \<rparr>],
       Raw = '''' \<rparr>"

definition ten_deps_graph :: Graph where
  "ten_deps_graph =
     \<lparr> units = [(''u.service'', job_unit)],
       allEdges = [edge ''u.service'' EdgeAfter ''d0'', edge ''u.service'' EdgeAfter ''d1'',
                   edge ''u.service'' EdgeAfter ''d2'', edge ''u.service'' EdgeRequires ''d3'',
                   edge ''u.service'' EdgeRequires ''d4'', edge ''u.service'' EdgeRequires ''d5'',
                   edge ''u.service'' EdgeRequires ''d6'', edge ''u.service'' EdgeRequires ''d7'',
                   edge ''u.service'' EdgeRequires ''d8'', edge ''u.service'' EdgeRequires ''d9''] \<rparr>"

definition eleven_deps_graph :: Graph where
  "eleven_deps_graph =
     \<lparr> units = [(''u.service'', job_unit)],
       allEdges = edge ''u.service'' EdgeAfter ''d10'' # allEdges ten_deps_graph \<rparr>"

text \<open>
  A service ordered after the network target, with a start timeout of five seconds and with
  the timeout switched off (zero).
\<close>

definition net_graph :: Graph where
  "net_graph =
     \<lparr> units = [(''web.service'', demo_named ''web.service'')],
       allEdges = [edge ''web.service'' EdgeAfter ''network.target''] \<rparr>"

definition timeout_config :: "string \<Rightarrow> int \<Rightarrow> TimeoutConfig" where
  "timeout_config n t =
     \<lparr> tc_Unit = n, TimeoutStartSec = t, TimeoutStopSec = 90 * Second,
       TimeoutAbortSec = 90 * Second, JobTimeoutSec = 0, RestartSec = 100000000,
       Source = '''' \<rparr>"

text \<open>
  A unit a with a chain of requirements behind it (c requires b, b requires a), a unit that
  is part of a, a unit with a requisite on a and a unit that wants a.
\<close>

definition prop_graph :: Graph where
  "prop_graph =
     \<lparr> units = [],
       allEdges = [edge ''b'' EdgeRequires ''a'', edge ''c'' EdgeRequires ''b'',
                   edge ''p'' EdgePartOf ''a'', edge ''q'' EdgeRequisite ''a'',
                   edge ''w'' EdgeWants ''a''] \<rparr>"

definition prop_impact :: FailureImpact where
  "prop_impact =
     \<lparr> FailedUnit = ''a'',
       AffectedUnits =
         [\<lparr> au_Name = ''b'', Impact = ''fail_to_start'', PropagationPath = [''a'', ''b''],
             au_EdgeType = EdgeRequires, au_Severity = ''high'' \<rparr>,
          \<lparr> au_Name = ''q'', Impact = ''fail_to_start'', PropagationPath = [''a'', ''q''],
             au_EdgeType = EdgeRequisite, au_Severity = ''critical'' \<rparr>],
       TotalAffected = 2,
       CriticalChain = [''a'', ''b''] \<rparr>"

section \<open>Properties\<close>

lemma set_insert_by: "set (insert_by lt x xs) = insert x (set xs)"
  by (induction xs) auto

lemma set_sort_Slice: "set (sort_Slice lt xs) = set xs"
  by (induction xs) (auto simp: set_insert_by)

lemma mset_insert_by: "mset (insert_by lt x xs) = add_mset x (mset xs)"
  by (induction xs) auto

lemma mset_sort_Slice: "mset (sort_Slice lt xs) = mset xs"
  by (induction xs) (auto simp: mset_insert_by)

subsection \<open>Unit-model accessors\<close>

text \<open>
  C9. For every unit, section name and key, \<open>GetDirective\<close> is the value of the first element of
  \<open>GetDirectives\<close> when that sequence is not empty and the empty string otherwise; and when the
  section or the key is absent the three accessors return the empty string, the empty sequence
  and false. The accessors are total functions: there is no error result.
\<close>

theorem GetDirective_first_of_GetDirectives:
  "(GetDirectives u s k \<noteq> [] \<longrightarrow> GetDirective u s k = d_Value (hd (GetDirectives u s k)))
   \<and> (GetDirectives u s k = [] \<longrightarrow> GetDirective u s k = '''')
   \<and> ((Sections u s = None \<or> (\<exists>sec. Sections u s = Some sec \<and> Directives sec k = None))
        \<longrightarrow> GetDirective u s k = '''' \<and> GetDirectives u s k = [] \<and> \<not> HasDirective u s k)"
  by (auto simp: GetDirective_def GetDirectives_def HasDirective_def
           split: option.splits list.splits)

theorem GetDirective_first_of_GetDirectives_witness:
  "GetDirectives demo_unit ''Service'' ''ExecStartPre'' \<noteq> []
   \<and> GetDirective demo_unit ''Service'' ''ExecStartPre'' = ''/bin/a''
   \<and> Sections demo_unit ''Unit'' = None
   \<and> GetDirective demo_unit ''Unit'' ''After'' = ''''
   \<and> GetDirectives demo_unit ''Unit'' ''After'' = []
   \<and> \<not> HasDirective demo_unit ''Unit'' ''After''"
  using GetDirective_first_of_GetDirectives [of demo_unit "''Service''" "''ExecStartPre''"]
        GetDirective_first_of_GetDirectives [of demo_unit "''Unit''" "''After''"]
  by (simp add: demo_unit_def GetDirectives_def)

subsection \<open>Sorting\<close>

lemma sorted_insert_by:
  assumes asym: "\<And>a b. lt a b \<Longrightarrow> \<not> lt b a"
    and trans: "\<And>a b c. \<not> lt b a \<Longrightarrow> \<not> lt c b \<Longrightarrow> \<not> lt c a"
    and sorted: "sorted_wrt (\<lambda>a b. \<not> lt b a) xs"
  shows "sorted_wrt (\<lambda>a b. \<not> lt b a) (insert_by lt x xs)"
  using sorted
proof (induction xs)
  case Nil
  then show ?case by simp
next
  case (Cons y ys)
  show ?case
  proof (cases "lt y x")
    case True
    from Cons.prems have tail: "sorted_wrt (\<lambda>a b. \<not> lt b a) ys"
      and head: "\<forall>z \<in> set ys. \<not> lt z y" by simp_all
    from True have "\<not> lt x y" by (rule asym)
    with head have "\<forall>z \<in> set (insert_by lt x ys). \<not> lt z y"
      by (simp add: set_insert_by)
    with Cons.IH [OF tail] True show ?thesis by simp
  next
    case False
    from Cons.prems have head: "\<forall>z \<in> set ys. \<not> lt z y" by simp
    have "\<forall>z \<in> set ys. \<not> lt z x"
    proof
      fix z assume "z \<in> set ys"
      with head have "\<not> lt z y" by blast
      with False show "\<not> lt z x" by (rule trans)
    qed
    with False Cons.prems show ?thesis by simp
  qed
qed

lemma sorted_sort_Slice:
  assumes asym: "\<And>a b. lt a b \<Longrightarrow> \<not> lt b a"
    and trans: "\<And>a b c. \<not> lt b a \<Longrightarrow> \<not> lt c b \<Longrightarrow> \<not> lt c a"
  shows "sorted_wrt (\<lambda>a b. \<not> lt b a) (sort_Slice lt xs)"
proof (induction xs)
  case Nil
  show ?case by simp
next
  case (Cons x xs)
  from asym trans Cons.IH show ?case
    unfolding sort_Slice.simps by (rule sorted_insert_by)
qed

subsection \<open>Dangling references\<close>

lemma danglingRefSeverityOrder_rank:
  "danglingRefSeverityOrder t = int (dangling_severity_rank (EdgeType_dangling_severity t))"
  by (cases t) (simp_all add: dangling_severity_rank_def)

lemma not_dangling_less_iff: "\<not> dangling_less b a \<longleftrightarrow> dangling_ordered a b"
  by (auto simp: dangling_less_def dangling_ordered_def DanglingRef_Severity_def
        danglingRefSeverityOrder_rank Let_def)

lemma dangling_less_asym: "dangling_less a b \<Longrightarrow> \<not> dangling_less b a"
  by (auto simp: dangling_less_def Let_def split: if_splits)

lemma dangling_ordered_trans:
  "dangling_ordered a b \<Longrightarrow> dangling_ordered b c \<Longrightarrow> dangling_ordered a c"
  unfolding dangling_ordered_def by (elim disjE conjE) auto

lemma FindDanglingRefs_sorted: "sorted_wrt dangling_ordered (FindDanglingRefs g)"
proof -
  have "sorted_wrt (\<lambda>a b. \<not> dangling_less b a) (FindDanglingRefs g)"
    unfolding FindDanglingRefs_def
  proof (rule sorted_sort_Slice)
    fix a b assume "dangling_less a b"
    then show "\<not> dangling_less b a" by (rule dangling_less_asym)
  next
    fix a b c assume "\<not> dangling_less b a" "\<not> dangling_less c b"
    then show "\<not> dangling_less c a"
      unfolding not_dangling_less_iff by (rule dangling_ordered_trans)
  qed
  then show ?thesis by (simp add: not_dangling_less_iff)
qed

lemma EdgeType_dangling_severity_table:
  "EdgeType_dangling_severity t =
     (if t = EdgeRequires \<or> t = EdgeRequisite \<or> t = EdgeBindsTo then ''high''
      else if t = EdgeWants then ''medium''
      else if t = EdgeAfter \<or> t = EdgeBefore then ''low''
      else ''info'')"
  by (cases t) simp_all

text \<open>
  C4. \<open>FindDanglingRefs\<close> returns exactly one reference for each edge of the graph whose target
  is not a key of the unit map, and nothing else: the references, read as their from unit,
  to unit, edge type, file and line together with their severity, are as a multiset the
  dangling edges of the graph, read as their from unit, to unit, type, file and line together
  with the severity of the type: high for Requires, Requisite and BindsTo, medium for Wants,
  low for After and Before and info otherwise. The list is sorted by the rank of that
  severity, then by the from name, then by the to name.
\<close>

theorem FindDanglingRefs_exact_and_sorted:
  "mset (map (\<lambda>d. (dr_From d, dr_To d, dr_EdgeType d, dr_File d, dr_Line d, DanglingRef_Severity d))
           (FindDanglingRefs g))
     = mset (map (\<lambda>e. (From e, To e, Type e, File e, Line e,
                      if Type e = EdgeRequires \<or> Type e = EdgeRequisite \<or> Type e = EdgeBindsTo
                      then ''high''
                      else if Type e = EdgeWants then ''medium''
                      else if Type e = EdgeAfter \<or> Type e = EdgeBefore then ''low''
                      else ''info''))
               (filter (\<lambda>e. To e \<notin> fst ` set (units g)) (allEdges g)))
   \<and> sorted_wrt dangling_ordered (FindDanglingRefs g)"
proof -
  let ?fields = "\<lambda>d. (dr_From d, dr_To d, dr_EdgeType d, dr_File d, dr_Line d, DanglingRef_Severity d)"
  let ?edge = "\<lambda>e. (From e, To e, Type e, File e, Line e,
                      if Type e = EdgeRequires \<or> Type e = EdgeRequisite \<or> Type e = EdgeBindsTo
                      then ''high''
                      else if Type e = EdgeWants then ''medium''
                      else if Type e = EdgeAfter \<or> Type e = EdgeBefore then ''low''
                      else ''info'')"
  let ?dangling = "filter (\<lambda>e. To e \<notin> fst ` set (units g)) (allEdges g)"
  have key: "\<And>e. map_of (units g) (To e) = None \<longleftrightarrow> To e \<notin> fst ` set (units g)"
    by (simp add: map_of_eq_None_iff)
  have refs: "mset (FindDanglingRefs g) = mset (map dangling_of_edge ?dangling)"
    by (simp add: FindDanglingRefs_def mset_sort_Slice key)
  have one: "?fields (dangling_of_edge e) = ?edge e" for e
    unfolding dangling_of_edge_def DanglingRef_Severity_def
    by (simp add: EdgeType_dangling_severity_table)
  have "mset (map ?fields (FindDanglingRefs g)) = image_mset ?fields (mset (FindDanglingRefs g))"
    by (rule mset_map)
  also have "\<dots> = image_mset ?fields (mset (map dangling_of_edge ?dangling))"
    by (simp only: refs)
  also have "\<dots> = mset (map ?fields (map dangling_of_edge ?dangling))"
    by (rule mset_map [symmetric])
  also have "map ?fields (map dangling_of_edge ?dangling) = map ?edge ?dangling"
    unfolding map_map comp_def by (rule map_cong [OF refl]) (rule one)
  finally have exact: "mset (map ?fields (FindDanglingRefs g)) = mset (map ?edge ?dangling)" .
  from exact FindDanglingRefs_sorted show ?thesis by (rule conjI)
qed

text \<open>
  A graph with two units and three dangling edges: the edge to the loaded unit gives no
  reference, and each reference carries the from unit, to unit, type, file and line of its
  edge.
\<close>

lemma dangling_graph_FindDanglingRefs:
  "FindDanglingRefs dangling_graph =
     [\<lparr> dr_From = ''app.service'', dr_To = ''missing-db.service'', dr_EdgeType = EdgeRequires,
        dr_File = ''/etc/systemd/system/app.service'', dr_Line = 4 \<rparr>,
      \<lparr> dr_From = ''app.service'', dr_To = ''gone.service'', dr_EdgeType = EdgeWants,
        dr_File = ''/etc/systemd/system/app.service'', dr_Line = 3 \<rparr>,
      \<lparr> dr_From = ''web.service'', dr_To = ''gone.service'', dr_EdgeType = EdgeAfter,
        dr_File = ''/etc/systemd/system/web.service'', dr_Line = 2 \<rparr>]"
  by (simp add: FindDanglingRefs_def dangling_graph_def edge_at_def dangling_of_edge_def
        dangling_less_def)

theorem FindDanglingRefs_exact_and_sorted_witness:
  "FindDanglingRefs dangling_graph =
     [\<lparr> dr_From = ''app.service'', dr_To = ''missing-db.service'', dr_EdgeType = EdgeRequires,
        dr_File = ''/etc/systemd/system/app.service'', dr_Line = 4 \<rparr>,
      \<lparr> dr_From = ''app.service'', dr_To = ''gone.service'', dr_EdgeType = EdgeWants,
        dr_File = ''/etc/systemd/system/app.service'', dr_Line = 3 \<rparr>,
      \<lparr> dr_From = ''web.service'', dr_To = ''gone.service'', dr_EdgeType = EdgeAfter,
        dr_File = ''/etc/systemd/system/web.service'', dr_Line = 2 \<rparr>]
   \<and> map DanglingRef_Severity (FindDanglingRefs dangling_graph) = [''high'', ''medium'', ''low'']
   \<and> mset (map (\<lambda>d. (dr_From d, dr_To d, dr_EdgeType d, dr_File d, dr_Line d, DanglingRef_Severity d))
           (FindDanglingRefs dangling_graph))
       = {# (''web.service'', ''gone.service'', EdgeAfter, ''/etc/systemd/system/web.service'', 2, ''low''),
            (''app.service'', ''gone.service'', EdgeWants, ''/etc/systemd/system/app.service'', 3, ''medium''),
            (''app.service'', ''missing-db.service'', EdgeRequires, ''/etc/systemd/system/app.service'', 4, ''high'') #}
   \<and> sorted_wrt dangling_ordered (FindDanglingRefs dangling_graph)"
proof -
  note eq = dangling_graph_FindDanglingRefs
  have sev: "map DanglingRef_Severity (FindDanglingRefs dangling_graph) = [''high'', ''medium'', ''low'']"
    unfolding eq by (simp add: DanglingRef_Severity_def)
  have edges: "mset (map (\<lambda>e. (From e, To e, Type e, File e, Line e,
                      if Type e = EdgeRequires \<or> Type e = EdgeRequisite \<or> Type e = EdgeBindsTo
                      then ''high''
                      else if Type e = EdgeWants then ''medium''
                      else if Type e = EdgeAfter \<or> Type e = EdgeBefore then ''low''
                      else ''info''))
               (filter (\<lambda>e. To e \<notin> fst ` set (units dangling_graph)) (allEdges dangling_graph)))
       = {# (''web.service'', ''gone.service'', EdgeAfter, ''/etc/systemd/system/web.service'', 2, ''low''),
            (''app.service'', ''gone.service'', EdgeWants, ''/etc/systemd/system/app.service'', 3, ''medium''),
            (''app.service'', ''missing-db.service'', EdgeRequires, ''/etc/systemd/system/app.service'', 4, ''high'') #}"
    by (simp add: dangling_graph_def edge_at_def)
  from FindDanglingRefs_exact_and_sorted [of dangling_graph]
  have exact: "mset (map (\<lambda>d. (dr_From d, dr_To d, dr_EdgeType d, dr_File d, dr_Line d, DanglingRef_Severity d))
           (FindDanglingRefs dangling_graph))
       = {# (''web.service'', ''gone.service'', EdgeAfter, ''/etc/systemd/system/web.service'', 2, ''low''),
            (''app.service'', ''gone.service'', EdgeWants, ''/etc/systemd/system/app.service'', 3, ''medium''),
            (''app.service'', ''missing-db.service'', EdgeRequires, ''/etc/systemd/system/app.service'', 4, ''high'') #}"
    and srt: "sorted_wrt dangling_ordered (FindDanglingRefs dangling_graph)"
    unfolding edges by (rule conjunct1, rule conjunct2)
  from eq sev exact srt show ?thesis by (intro conjI)
qed

subsection \<open>Order of the issue list\<close>

lemma not_issue_less_iff: "\<not> issue_less b a \<longleftrightarrow> issue_ordered a b"
  by (cases "i_Severity a"; cases "i_Severity b")
     (auto simp: issue_less_def issue_ordered_def)

lemma issue_less_asym: "issue_less a b \<Longrightarrow> \<not> issue_less b a"
  by (auto simp: issue_less_def split: if_splits)

lemma issue_ordered_trans: "issue_ordered a b \<Longrightarrow> issue_ordered b c \<Longrightarrow> issue_ordered a c"
  unfolding issue_ordered_def by (elim disjE conjE) auto

lemma sort_issues_ordered: "sorted_wrt issue_ordered (sort_Slice issue_less xs)"
proof -
  have "sorted_wrt (\<lambda>a b. \<not> issue_less b a) (sort_Slice issue_less xs)"
  proof (rule sorted_sort_Slice)
    fix a b assume "issue_less a b"
    then show "\<not> issue_less b a" by (rule issue_less_asym)
  next
    fix a b c assume "\<not> issue_less b a" "\<not> issue_less c b"
    then show "\<not> issue_less c a"
      unfolding not_issue_less_iff by (rule issue_ordered_trans)
  qed
  then show ?thesis by (simp add: not_issue_less_iff)
qed

text \<open>
  C8. Whenever \<open>Scan\<close> or \<open>CheckFiles\<close> returns a result, its issue list is ordered: of two
  issues the earlier one has the greater severity, or they have the same severity and the
  unit name of the earlier one is not greater.
\<close>

theorem scan_issues_ordered:
  "(Scan eng config opts loaded = Inr r \<longrightarrow> sorted_wrt issue_ordered (r_Issues r))
   \<and> (CheckFiles eng config opts loaded' = Inr r' \<longrightarrow> sorted_wrt issue_ordered (r_Issues r'))"
  by (auto simp: Scan_def CheckFiles_def Let_def sort_issues_ordered
           split: sum.splits if_splits prod.splits)

theorem scan_issues_ordered_witness:
  "Scan demo_engine () demo_options (Inr demo_loaded) = Inr demo_result
   \<and> map (\<lambda>i. (i_Severity i, i_Unit i)) (r_Issues demo_result)
       = [(SeverityHigh, ''a.service''), (SeverityHigh, ''b.service''),
          (SeverityLow, ''a.service''), (SeverityLow, ''b.service'')]
   \<and> sorted_wrt issue_ordered (r_Issues demo_result)"
proof -
  have run: "Scan demo_engine () demo_options (Inr demo_loaded) = Inr demo_result"
    by (simp add: demo_result_def Scan_def demo_loaded_def Let_def)
  have shape: "map (\<lambda>i. (i_Severity i, i_Unit i)) (r_Issues demo_result)
       = [(SeverityHigh, ''a.service''), (SeverityHigh, ''b.service''),
          (SeverityLow, ''a.service''), (SeverityLow, ''b.service'')]"
    by (simp add: demo_result_def Scan_def demo_loaded_def demo_engine_def demo_options_def
          issues_of_unit_def demo_issue_def issue_less_def demo_named_def Let_def)
  from scan_issues_ordered [of demo_engine "()" demo_options "Inr demo_loaded" demo_result] run shape
  show ?thesis by blast
qed

subsection \<open>Cycle severity\<close>

lemma scc_EdgeTypes_of_component:
  "set (scc_EdgeTypes (scc_of_component nodes edges scc))
   = Type ` set (scc_Edges (scc_of_component nodes edges scc))"
  by (simp add: scc_of_component_def Let_def set_sort_Slice)

lemma scc_Units_of_component:
  "set (scc_Units (scc_of_component nodes edges scc)) = {name. \<exists>n \<in> set scc. nodes n = Some name}"
proof -
  have "set (List.map_filter nodes scc) = {name. \<exists>n \<in> set scc. nodes n = Some name}"
  proof (induction scc)
    case Nil
    show ?case by (simp add: List.map_filter_simps)
  next
    case (Cons n ns)
    then show ?case by (cases "nodes n") (auto simp: List.map_filter_simps)
  qed
  then show ?thesis by (simp add: scc_of_component_def Let_def set_sort_Slice)
qed

lemma scc_Units_sorted: "sorted (scc_Units (scc_of_component nodes edges scc))"
proof -
  have "sorted_wrt (\<lambda>a b. \<not> b < a) (sort_Slice (<) xs)" for xs :: "string list"
    by (rule sorted_sort_Slice) auto
  then have "sorted (sort_Slice (<) xs)" for xs :: "string list"
    by (simp add: not_less)
  then show ?thesis by (simp add: scc_of_component_def Let_def)
qed

lemma scc_Edges_of_component:
  "scc_Edges (scc_of_component nodes edges scc)
   = filter (\<lambda>e. From e \<in> set (scc_Units (scc_of_component nodes edges scc))
                 \<and> To e \<in> set (scc_Units (scc_of_component nodes edges scc))) edges"
  by (simp add: scc_of_component_def Let_def set_sort_Slice)

lemma FindCycles_member:
  "c \<in> set (FindCycles nodes sccs g) \<Longrightarrow>
     \<exists>scc \<in> set sccs. length scc > 1 \<and> c = scc_of_component nodes (allEdges g) scc"
proof -
  assume "c \<in> set (FindCycles nodes sccs g)"
  then obtain scc where "scc \<in> set sccs" "\<not> length scc \<le> 1"
    "c = scc_of_component nodes (allEdges g) scc"
    by (auto simp: FindCycles_def set_sort_Slice)
  then have "scc \<in> set sccs \<and> length scc > 1 \<and> c = scc_of_component nodes (allEdges g) scc"
    by simp
  then show ?thesis by blast
qed

text \<open>
  C1. Every cycle returned by \<open>FindCycles\<close>, whatever components the SCC routine delivers,
  belongs to a component of more than one node: its units are the names of the nodes of
  that component, in ascending order, and its edges are exactly the edges of the graph
  whose two ends are units of the cycle. Its severity is critical if one of these edges of
  the graph is Requires, BindsTo or Requisite, otherwise high if one is Wants, otherwise
  medium; the edge types of the record are exactly the types of these edges. In particular
  a cycle with a Requires edge of the graph between two of its units is critical.
\<close>

theorem CycleSeverity_of_found_cycle:
  assumes "c \<in> set (FindCycles nodes sccs g)"
  shows "(\<exists>scc \<in> set sccs. length scc > 1
            \<and> set (scc_Units c) = {name. \<exists>n \<in> set scc. nodes n = Some name})
     \<and> sorted (scc_Units c)
     \<and> scc_Edges c
         = filter (\<lambda>e. From e \<in> set (scc_Units c) \<and> To e \<in> set (scc_Units c)) (allEdges g)
     \<and> set (scc_EdgeTypes c) = Type ` set (scc_Edges c)
     \<and> CycleSeverity c =
        (if \<exists>e \<in> set (allEdges g). From e \<in> set (scc_Units c) \<and> To e \<in> set (scc_Units c)
              \<and> (Type e = EdgeRequires \<or> Type e = EdgeBindsTo \<or> Type e = EdgeRequisite)
         then ''critical''
         else if \<exists>e \<in> set (allEdges g). From e \<in> set (scc_Units c) \<and> To e \<in> set (scc_Units c)
              \<and> Type e = EdgeWants
         then ''high''
         else ''medium'')
     \<and> ((\<exists>e \<in> set (allEdges g). From e \<in> set (scc_Units c) \<and> To e \<in> set (scc_Units c)
              \<and> Type e = EdgeRequires)
          \<longrightarrow> CycleSeverity c = ''critical'')"
proof -
  from assms obtain scc where scc: "scc \<in> set sccs" "length scc > 1"
    and c: "c = scc_of_component nodes (allEdges g) scc"
    using FindCycles_member by blast
  have units: "set (scc_Units c) = {name. \<exists>n \<in> set scc. nodes n = Some name}"
    unfolding c by (rule scc_Units_of_component)
  have srt: "sorted (scc_Units c)"
    unfolding c by (rule scc_Units_sorted)
  have edges: "scc_Edges c
         = filter (\<lambda>e. From e \<in> set (scc_Units c) \<and> To e \<in> set (scc_Units c)) (allEdges g)"
    unfolding c by (rule scc_Edges_of_component)
  have types: "set (scc_EdgeTypes c) = Type ` set (scc_Edges c)"
    unfolding c by (rule scc_EdgeTypes_of_component)
  have mem: "e \<in> set (scc_Edges c) \<longleftrightarrow>
      e \<in> set (allEdges g) \<and> From e \<in> set (scc_Units c) \<and> To e \<in> set (scc_Units c)" for e
    by (subst edges) auto
  have crit: "list_ex (\<lambda>et. et = EdgeRequires \<or> et = EdgeBindsTo \<or> et = EdgeRequisite) (scc_EdgeTypes c)
      \<longleftrightarrow> (\<exists>e \<in> set (allEdges g). From e \<in> set (scc_Units c) \<and> To e \<in> set (scc_Units c)
              \<and> (Type e = EdgeRequires \<or> Type e = EdgeBindsTo \<or> Type e = EdgeRequisite))"
    unfolding list_ex_iff types using mem by blast
  have high: "list_ex (\<lambda>et. et = EdgeWants) (scc_EdgeTypes c)
      \<longleftrightarrow> (\<exists>e \<in> set (allEdges g). From e \<in> set (scc_Units c) \<and> To e \<in> set (scc_Units c)
              \<and> Type e = EdgeWants)"
    unfolding list_ex_iff types using mem by blast
  have sev: "CycleSeverity c =
        (if \<exists>e \<in> set (allEdges g). From e \<in> set (scc_Units c) \<and> To e \<in> set (scc_Units c)
              \<and> (Type e = EdgeRequires \<or> Type e = EdgeBindsTo \<or> Type e = EdgeRequisite)
         then ''critical''
         else if \<exists>e \<in> set (allEdges g). From e \<in> set (scc_Units c) \<and> To e \<in> set (scc_Units c)
              \<and> Type e = EdgeWants
         then ''high''
         else ''medium'')"
    unfolding CycleSeverity_def crit high by (rule refl)
  have req: "(\<exists>e \<in> set (allEdges g). From e \<in> set (scc_Units c) \<and> To e \<in> set (scc_Units c)
              \<and> Type e = EdgeRequires)
          \<longrightarrow> CycleSeverity c = ''critical''"
  proof
    assume "\<exists>e \<in> set (allEdges g). From e \<in> set (scc_Units c) \<and> To e \<in> set (scc_Units c)
              \<and> Type e = EdgeRequires"
    then have "\<exists>e \<in> set (allEdges g). From e \<in> set (scc_Units c) \<and> To e \<in> set (scc_Units c)
              \<and> (Type e = EdgeRequires \<or> Type e = EdgeBindsTo \<or> Type e = EdgeRequisite)"
      by blast
    then show "CycleSeverity c = ''critical''" by (simp only: sev if_True)
  qed
  from scc units have comp: "\<exists>scc \<in> set sccs. length scc > 1
            \<and> set (scc_Units c) = {name. \<exists>n \<in> set scc. nodes n = Some name}"
    by blast
  from comp srt edges types sev req show ?thesis by (intro conjI)
qed

text \<open>
  The three-unit cycle of the end-to-end scenarios is critical. In the graph of two cycles
  the Requires edge leads from one cycle to the other and belongs to neither: the cycle of
  After edges is medium and the cycle with Wants edges is high.
\<close>

lemma cycle_graph_FindCycles:
  "FindCycles cycle_nodes cycle_sccs cycle_graph =
     [\<lparr> scc_Units = [''a.service'', ''b.service'', ''c.service''],
        scc_Edges = allEdges cycle_graph,
        scc_EdgeTypes = [EdgeRequires] \<rparr>]"
  by (simp add: FindCycles_def scc_of_component_def cycle_graph_def cycle_nodes_def
        cycle_sccs_def List.map_filter_def edge_def)

lemma two_cycles_FindCycles:
  "FindCycles two_cycles_nodes two_cycles_sccs two_cycles_graph =
     [\<lparr> scc_Units = [''a.service'', ''b.service''],
        scc_Edges = [edge ''a.service'' EdgeAfter ''b.service'',
                     edge ''b.service'' EdgeAfter ''a.service''],
        scc_EdgeTypes = [EdgeAfter] \<rparr>,
      \<lparr> scc_Units = [''c.service'', ''d.service''],
        scc_Edges = [edge ''c.service'' EdgeWants ''d.service'',
                     edge ''d.service'' EdgeWants ''c.service'',
                     edge ''d.service'' EdgeAfter ''c.service''],
        scc_EdgeTypes = [EdgeWants, EdgeAfter] \<rparr>]"
  by code_simp

theorem CycleSeverity_of_found_cycle_witness:
  "hd (FindCycles cycle_nodes cycle_sccs cycle_graph)
     \<in> set (FindCycles cycle_nodes cycle_sccs cycle_graph)
   \<and> CycleSeverity (hd (FindCycles cycle_nodes cycle_sccs cycle_graph)) = ''critical''
   \<and> map scc_Units (FindCycles two_cycles_nodes two_cycles_sccs two_cycles_graph)
       = [[''a.service'', ''b.service''], [''c.service'', ''d.service'']]
   \<and> map CycleSeverity (FindCycles two_cycles_nodes two_cycles_sccs two_cycles_graph)
       = [''medium'', ''high'']"
proof -
  let ?c = "hd (FindCycles cycle_nodes cycle_sccs cycle_graph)"
  have mem: "?c \<in> set (FindCycles cycle_nodes cycle_sccs cycle_graph)"
    unfolding cycle_graph_FindCycles by simp
  have req: "\<exists>e \<in> set (allEdges cycle_graph).
      From e \<in> set (scc_Units ?c) \<and> To e \<in> set (scc_Units ?c) \<and> Type e = EdgeRequires"
    unfolding cycle_graph_FindCycles by (simp add: cycle_graph_def edge_def)
  from CycleSeverity_of_found_cycle [OF mem] req
  have crit: "CycleSeverity ?c = ''critical''" by blast
  have names: "map scc_Units (FindCycles two_cycles_nodes two_cycles_sccs two_cycles_graph)
       = [[''a.service'', ''b.service''], [''c.service'', ''d.service'']]"
    unfolding two_cycles_FindCycles by simp
  have sevs: "map CycleSeverity (FindCycles two_cycles_nodes two_cycles_sccs two_cycles_graph)
       = [''medium'', ''high'']"
    unfolding two_cycles_FindCycles by (simp add: CycleSeverity_def)
  from mem crit names sevs show ?thesis by (intro conjI)
qed

subsection \<open>Mount unit names\<close>

lemma word_char_code:
  "word_char c \<Longrightarrow>
     (97 \<le> (of_char c :: nat) \<and> (of_char c :: nat) \<le> 122) \<or> (65 \<le> (of_char c :: nat) \<and> (of_char c :: nat) \<le> 90)
     \<or> (48 \<le> (of_char c :: nat) \<and> (of_char c :: nat) \<le> 57) \<or> (of_char c :: nat) = 95"
  by (auto simp: word_char_def less_eq_char_def)

lemma word_char_not_special:
  "word_char c \<Longrightarrow> c \<noteq> CHR ''/'' \<and> c \<noteq> CHR ''-'' \<and> c \<noteq> CHR ''.''"
  by (auto simp: word_char_def less_eq_char_def)

lemma escape_rune_keeps:
  assumes "word_char c \<or> c = CHR ''-''"
  shows "escape_rune (of_char c) = [c]"
proof -
  from assms have "(97 \<le> (of_char c :: nat) \<and> (of_char c :: nat) \<le> 122)
     \<or> (65 \<le> (of_char c :: nat) \<and> (of_char c :: nat) \<le> 90)
     \<or> (48 \<le> (of_char c :: nat) \<and> (of_char c :: nat) \<le> 57)
     \<or> (of_char c :: nat) = 45 \<or> (of_char c :: nat) = 95"
    using word_char_code [of c] by auto
  then show ?thesis by (simp add: escape_rune_def)
qed

lemma runes_of_ascii: "list_all (\<lambda>b. b < 128) bs \<Longrightarrow> runes_of bs = bs"
  by (induction bs) simp_all

lemma escapeMountUnitName_keeps:
  assumes "list_all (\<lambda>c. word_char c \<or> c = CHR ''-'') s"
  shows "escapeMountUnitName s = s"
proof -
  have ascii: "list_all (\<lambda>b. b < 128) (map of_char s :: nat list)"
    using assms word_char_code by (fastforce simp: list_all_iff)
  have "concat (map escape_rune (map of_char s)) = s"
    using assms by (induction s) (simp_all add: escape_rune_keeps)
  then show ?thesis by (simp add: escapeMountUnitName_def runes_of_ascii [OF ascii])
qed

lemma split_on_append:
  "c \<notin> set s \<Longrightarrow> split_on c (s @ xs) = (s @ hd (split_on c xs)) # tl (split_on c xs)"
proof (induction s)
  case Nil
  show ?case by (cases xs) (auto split: list.splits)
next
  case (Cons a s)
  then show ?case by auto
qed

lemma split_on_segments:
  "\<forall>s \<in> set segs. c \<notin> set s \<Longrightarrow> split_on c (concat (map (\<lambda>s. c # s) segs)) = [] # segs"
proof (induction segs)
  case Nil
  show ?case by simp
next
  case (Cons s segs)
  then have "split_on c (s @ concat (map (\<lambda>s. c # s) segs)) = s # segs"
    by (simp add: split_on_append)
  then show ?case by simp
qed

lemma foldl_clean_step_plain:
  "\<forall>s \<in> set segs. s \<noteq> [] \<and> s \<noteq> ''.'' \<and> s \<noteq> ''..''
     \<Longrightarrow> foldl (clean_step rooted) out segs = out @ segs"
  by (induction segs arbitrary: out) (simp_all add: clean_step_def)

lemma concat_segments_join:
  "concat (map (\<lambda>s. c # s) segs) = (if segs = [] then [] else c # join_with c segs)"
proof (induction segs)
  case Nil
  show ?case by simp
next
  case (Cons s segs)
  then show ?case by (cases segs) simp_all
qed

lemma ReplaceAll_absent: "a \<notin> set w \<Longrightarrow> ReplaceAll w a b = w"
  by (induction w) (auto simp: ReplaceAll_def)

lemma ReplaceAll_append: "ReplaceAll (u @ v) a b = ReplaceAll u a b @ ReplaceAll v a b"
  by (simp add: ReplaceAll_def)

lemma ReplaceAll_Cons: "ReplaceAll (a # v) a b = b # ReplaceAll v a b"
  by (simp add: ReplaceAll_def)

lemma ReplaceAll_join:
  "\<forall>s \<in> set segs. a \<notin> set s \<Longrightarrow> ReplaceAll (join_with a segs) a b = join_with b segs"
proof (induction segs rule: join_with.induct)
  case (1 c)
  show ?case by (simp add: ReplaceAll_def)
next
  case (2 c w)
  then show ?case by (simp add: ReplaceAll_absent)
next
  case (3 c w v ws)
  then show ?case by (simp add: ReplaceAll_absent ReplaceAll_append ReplaceAll_Cons)
qed

lemma set_join_with: "set (join_with c segs) \<subseteq> insert c (\<Union> (set ` set segs))"
  by (induction c segs rule: join_with.induct) auto

lemma last_join_with:
  "segs \<noteq> [] \<Longrightarrow> last segs \<noteq> [] \<Longrightarrow> join_with c segs \<noteq> [] \<and> last (join_with c segs) = last (last segs)"
  by (induction c segs rule: join_with.induct) auto

lemma plain_segment_facts:
  assumes "plain_segment s"
  shows "s \<noteq> []" "CHR ''/'' \<notin> set s" "CHR ''-'' \<notin> set s" "s \<noteq> ''.''" "s \<noteq> ''..''"
    "list_all (\<lambda>c. word_char c \<or> c = CHR ''-'') s"
proof -
  from assms have ne: "s \<noteq> []" and all: "\<forall>c \<in> set s. word_char c"
    by (simp_all add: plain_segment_def list_all_iff)
  from all word_char_not_special
  have ns: "\<forall>c \<in> set s. c \<noteq> CHR ''/'' \<and> c \<noteq> CHR ''-'' \<and> c \<noteq> CHR ''.''"
    by blast
  show "s \<noteq> []" by (rule ne)
  show "CHR ''/'' \<notin> set s" using ns by blast
  show "CHR ''-'' \<notin> set s" using ns by blast
  show "s \<noteq> ''.''"
  proof
    assume "s = ''.''"
    then have "CHR ''.'' \<in> set s" by simp
    with ns show False by blast
  qed
  show "s \<noteq> ''..''"
  proof
    assume "s = ''..''"
    then have "CHR ''.'' \<in> set s" by simp
    with ns show False by blast
  qed
  show "list_all (\<lambda>c. word_char c \<or> c = CHR ''-'') s"
    using all by (simp add: list_all_iff)
qed

lemma pathToMountUnitName_plain:
  assumes segs: "segs \<noteq> []" and plain: "\<forall>s \<in> set segs. plain_segment s"
  shows "pathToMountUnitName (path_of_segments segs) = join_with CHR ''-'' segs @ ''.mount''"
proof -
  let ?p = "path_of_segments segs"
  let ?j = "join_with CHR ''/'' segs"
  have p: "?p = CHR ''/'' # ?j"
    using segs by (simp add: path_of_segments_def concat_segments_join)
  from segs plain have lastseg: "last segs \<noteq> []"
    using plain_segment_facts(1) last_in_set by blast
  have j_ne: "?j \<noteq> []" and j_last: "last ?j = last (last segs)"
    using last_join_with [OF segs lastseg] by simp_all
  from segs plain have "plain_segment (last segs)" by simp
  then have "last (last segs) \<noteq> CHR ''/''"
    using lastseg plain_segment_facts(2) last_in_set by metis
  with j_last have j_end: "last ?j \<noteq> CHR ''/''" by simp
  have not_root: "?p \<noteq> ''/''" using p j_ne by simp
  have split: "split_on CHR ''/'' ?p = [] # segs"
    unfolding path_of_segments_def
    using plain plain_segment_facts(2) by (intro split_on_segments) blast
  have fold: "foldl (clean_step True) [] ([] # segs) = segs"
    using plain plain_segment_facts(1,4,5) foldl_clean_step_plain [of segs True "[]"]
    by (simp add: clean_step_def)
  have clean: "Clean ?p = ?p"
  proof -
    have "foldl (clean_step True) [] (split_on CHR ''/'' ?p) = segs"
      unfolding split by (rule fold)
    moreover have "hd ?p = CHR ''/''" and "?p \<noteq> []" by (simp_all add: p)
    ultimately have "Clean ?p = ''/'' @ ?j"
      unfolding Clean_def Let_def by simp
    then show ?thesis by (simp add: p)
  qed
  have trim1: "TrimPrefix ?p ''/'' = ?j"
    by (simp add: p TrimPrefix_def HasPrefix_def)
  have trim2: "TrimSuffix ?j ''/'' = ?j"
  proof -
    have "\<not> HasSuffix ?j ''/''"
    proof
      assume "HasSuffix ?j ''/''"
      then have "drop (length ?j - 1) ?j = ''/''" by (simp add: HasSuffix_def)
      moreover have "drop (length ?j - 1) ?j = [last ?j]"
        using j_ne by (metis append_butlast_last_id append_eq_conv_conj length_butlast)
      ultimately show False using j_end by simp
    qed
    then show ?thesis by (simp add: TrimSuffix_def)
  qed
  have repl: "ReplaceAll ?j CHR ''/'' CHR ''-'' = join_with CHR ''-'' segs"
    using plain plain_segment_facts(2) by (intro ReplaceAll_join) blast
  have "list_all (\<lambda>c. word_char c \<or> c = CHR ''-'') (join_with CHR ''-'' segs)"
  proof -
    have "\<forall>c \<in> set (join_with CHR ''-'' segs). word_char c \<or> c = CHR ''-''"
    proof
      fix c assume "c \<in> set (join_with CHR ''-'' segs)"
      with set_join_with [of "CHR ''-''" segs]
      have "c = CHR ''-'' \<or> (\<exists>s \<in> set segs. c \<in> set s)" by auto
      with plain show "word_char c \<or> c = CHR ''-''"
        by (auto simp: plain_segment_def list_all_iff)
    qed
    then show ?thesis by (simp add: list_all_iff)
  qed
  then have esc: "escapeMountUnitName (join_with CHR ''-'' segs) = join_with CHR ''-'' segs"
    by (rule escapeMountUnitName_keeps)
  show ?thesis
    using not_root by (simp add: pathToMountUnitName_def clean trim1 trim2 repl esc Let_def)
qed

lemma TrimSuffix_append: "TrimSuffix (x @ p) p = x"
  by (simp add: TrimSuffix_def HasSuffix_def)

text \<open>
  C5 (amended). For every absolute path of at least one segment whose segments each match
  \<open>[A-Za-z0-9_]+\<close> (no dash inside a segment), translating the path to a mount unit name and the
  name back yields the path; hence the translation is injective on such paths.
\<close>

theorem mount_unit_name_round_trip:
  assumes "segs \<noteq> []" and "\<forall>s \<in> set segs. plain_segment s"
  shows "mount_unit_name_to_path (pathToMountUnitName (path_of_segments segs)) = path_of_segments segs
    \<and> (\<forall>segs'. segs' \<noteq> [] \<and> (\<forall>s \<in> set segs'. plain_segment s)
          \<and> pathToMountUnitName (path_of_segments segs') = pathToMountUnitName (path_of_segments segs)
        \<longrightarrow> path_of_segments segs' = path_of_segments segs)"
proof -
  have rt: "mount_unit_name_to_path (pathToMountUnitName (path_of_segments ss)) = path_of_segments ss"
    if ne: "ss \<noteq> []" and plain: "\<forall>s \<in> set ss. plain_segment s" for ss
  proof -
    have repl: "ReplaceAll (join_with CHR ''-'' ss) CHR ''-'' CHR ''/'' = join_with CHR ''/'' ss"
      using plain plain_segment_facts(3) by (intro ReplaceAll_join) blast
    have name: "pathToMountUnitName (path_of_segments ss) = join_with CHR ''-'' ss @ ''.mount''"
      using ne plain by (rule pathToMountUnitName_plain)
    have p: "path_of_segments ss = CHR ''/'' # join_with CHR ''/'' ss"
      using ne by (simp add: path_of_segments_def concat_segments_join)
    have "mount_unit_name_to_path (pathToMountUnitName (path_of_segments ss))
        = mount_unit_name_to_path (join_with CHR ''-'' ss @ ''.mount'')"
      by (simp only: name)
    also have "\<dots> = CHR ''/'' # join_with CHR ''/'' ss"
      by (simp only: mount_unit_name_to_path_def TrimSuffix_append repl)
    also have "\<dots> = path_of_segments ss"
      by (simp only: p)
    finally show ?thesis .
  qed
  have inj: "path_of_segments segs' = path_of_segments segs"
    if "segs' \<noteq> []" "\<forall>s \<in> set segs'. plain_segment s"
      "pathToMountUnitName (path_of_segments segs') = pathToMountUnitName (path_of_segments segs)"
    for segs'
  proof -
    have "path_of_segments segs' = mount_unit_name_to_path (pathToMountUnitName (path_of_segments segs'))"
      by (rule rt [OF that(1,2), symmetric])
    also have "\<dots> = mount_unit_name_to_path (pathToMountUnitName (path_of_segments segs))"
      by (rule arg_cong [OF that(3)])
    also have "\<dots> = path_of_segments segs"
      by (rule rt [OF assms])
    finally show ?thesis .
  qed
  from rt [OF assms] inj show ?thesis by blast
qed

theorem mount_unit_name_round_trip_witness:
  "[''home'', ''user''] \<noteq> [] \<and> list_all plain_segment [''home'', ''user'']
   \<and> path_of_segments [''home'', ''user''] = ''/home/user''
   \<and> pathToMountUnitName ''/home/user'' = ''home-user.mount''
   \<and> mount_unit_name_to_path (pathToMountUnitName ''/home/user'') = ''/home/user''"
proof -
  have ne: "[''home'', ''user''] \<noteq> ([] :: string list)" by simp
  have plain: "\<forall>s \<in> set [''home'', ''user'']. plain_segment s"
    by (simp add: plain_segment_def word_char_def less_eq_char_def)
  have path: "path_of_segments [''home'', ''user''] = ''/home/user''"
    by (simp add: path_of_segments_def)
  have name: "pathToMountUnitName ''/home/user'' = ''home-user.mount''"
    by code_simp
  have "mount_unit_name_to_path (pathToMountUnitName (path_of_segments [''home'', ''user'']))
      = path_of_segments [''home'', ''user'']"
    by (rule mount_unit_name_round_trip [OF ne plain, THEN conjunct1])
  then have round: "mount_unit_name_to_path (pathToMountUnitName ''/home/user'') = ''/home/user''"
    unfolding path .
  from plain have plain': "list_all plain_segment [''home'', ''user'']"
    unfolding list_all_iff .
  from ne plain' path name round show ?thesis by (intro conjI)
qed

text \<open>
  With dashes allowed inside a segment the round trip fails: the paths \<open>/a-b\<close> and
  \<open>/a/b\<close> have the same unit name, and the inverse mapping sends it to \<open>/a/b\<close>.
\<close>

theorem mount_unit_name_round_trip_counterexample:
  "dash_segment ''a-b''
   \<and> mount_unit_name_to_path (pathToMountUnitName ''/a-b'') = ''/a/b''
   \<and> pathToMountUnitName ''/a-b'' = pathToMountUnitName ''/a/b''"
proof -
  have seg: "dash_segment ''a-b''"
    by (simp add: dash_segment_def word_char_def less_eq_char_def)
  have n1: "pathToMountUnitName ''/a-b'' = ''a-b.mount''" by code_simp
  have n2: "pathToMountUnitName ''/a/b'' = ''a-b.mount''" by code_simp
  have rt: "mount_unit_name_to_path ''a-b.mount'' = ''/a/b''" by code_simp
  from n1 rt have r: "mount_unit_name_to_path (pathToMountUnitName ''/a-b'') = ''/a/b''"
    by (simp only:)
  from n1 n2 have e: "pathToMountUnitName ''/a-b'' = pathToMountUnitName ''/a/b''"
    by (simp only:)
  from seg r e show ?thesis by (intro conjI)
qed

subsection \<open>Validators applied to a unit of another type\<close>

text \<open>
  C10. A unit whose type is not the validator's type gets back the initial validation record:
  valid, with the unit's name and every other field empty or false. This holds for the
  service, the mount and the socket validator, whatever the unit contains and whatever the
  helpers and the probe answer.
\<close>

theorem validators_skip_other_types:
  "(UnitType unit \<noteq> ''service'' \<longrightarrow>
      ValidateService validateExecPath checkContradictorySandboxing validateServiceType unit fs
        = \<lparr> sv_Unit = Name unit, ExecStartMissing = False, ExecStartNotFound = [],
            ExecStartNotExec = [], UserNotFound = [], GroupNotFound = [],
            ContradictorySandbox = [], TypeIssues = [], sv_Valid = True \<rparr>)
   \<and> (UnitType unit \<noteq> ''mount'' \<longrightarrow>
      ValidateMount isNetworkFS isSpecialDevice isValidFSType unit fs
        = \<lparr> mv_Unit = Name unit, NameMismatch = False, ExpectedName = [], WhatMissing = False,
            WhereMissing = False, WhatValue = [], WhereValue = [], DeviceNotFound = False,
            InvalidFSType = False, FSType = [], mv_Issues = [], mv_Valid = True \<rparr>)
   \<and> (UnitType unit \<noteq> ''socket'' \<longrightarrow>
      ValidateSocket validateListenValue unit allUnits
        = \<lparr> sk_Unit = Name unit, MissingService = False, ServiceName = [], InvalidListens = [],
            PortConflicts = [], sk_Issues = [], sk_Valid = True \<rparr>)"
  by (simp add: ValidateService_def ValidateMount_def ValidateSocket_def
        ServiceValidation_init_def MountValidation_init_def SocketValidation_init_def)

theorem validators_skip_other_types_witness:
  "UnitType demo_target \<noteq> ''service'' \<and> UnitType demo_target \<noteq> ''mount''
   \<and> UnitType demo_target \<noteq> ''socket''
   \<and> sv_Valid (ValidateService (\<lambda>v d l f. ([], [])) (\<lambda>u s. []) (\<lambda>s u. []) demo_target demo_fs)
   \<and> mv_Valid (ValidateMount (\<lambda>_. False) (\<lambda>_. False) (\<lambda>_. False) demo_target demo_fs)
   \<and> mv_Issues (ValidateMount (\<lambda>_. False) (\<lambda>_. False) (\<lambda>_. False) demo_target demo_fs) = []
   \<and> sk_Valid (ValidateSocket (\<lambda>d v l. None) demo_target Map.empty)
   \<and> sk_Issues (ValidateSocket (\<lambda>d v l. None) demo_target Map.empty) = []"
proof -
  have t: "UnitType demo_target \<noteq> ''service''" "UnitType demo_target \<noteq> ''mount''"
    "UnitType demo_target \<noteq> ''socket''"
    by (simp_all add: demo_target_def)
  from validators_skip_other_types
         [of demo_target "\<lambda>v d l f. ([], [])" "\<lambda>u s. []" "\<lambda>s u. []" demo_fs
             "\<lambda>_. False" "\<lambda>_. False" "\<lambda>_. False" "\<lambda>d v l. None" Map.empty]
       t
  show ?thesis by simp
qed

subsection \<open>Directional reachability\<close>

text \<open>
  The search returns what is reachable: with \<open>step\<close> the relation "an edge leads from the
  first unit to the second" (read forwards or backwards), the result of \<open>ReachableFrom\<close> is
  the set of units reachable from the start in any number of steps, without the start
  itself, in ascending order and without repetition.
\<close>

lemma visit_edges_result:
  "fst (visit_edges fwd es (seen, queue))
     = seen \<union> (\<lambda>e. if fwd then To e else From e) ` set es
   \<and> set (snd (visit_edges fwd es (seen, queue)))
     \<subseteq> set queue \<union> (\<lambda>e. if fwd then To e else From e) ` set es
   \<and> set queue \<subseteq> set (snd (visit_edges fwd es (seen, queue)))
   \<and> fst (visit_edges fwd es (seen, queue)) - seen
     \<subseteq> set (snd (visit_edges fwd es (seen, queue)))"
proof (induction es arbitrary: seen queue)
  case Nil
  show ?case by simp
next
  case (Cons e es)
  let ?f = "\<lambda>e. if fwd then To e else From e"
  let ?t = "?f e"
  have img: "?f ` set (e # es) = insert ?t (?f ` set es)" by simp
  show ?case
  proof (cases "?t \<in> seen")
    case True
    let ?r = "visit_edges fwd es (seen, queue)"
    have eq: "visit_edges fwd (e # es) (seen, queue) = ?r"
      using True by (simp add: Let_def)
    from Cons.IH [of seen queue]
    have i1: "fst ?r = seen \<union> ?f ` set es"
      and i2: "set (snd ?r) \<subseteq> set queue \<union> ?f ` set es"
      and i3: "set queue \<subseteq> set (snd ?r)"
      and i4: "fst ?r - seen \<subseteq> set (snd ?r)" by blast+
    have g1: "fst ?r = seen \<union> ?f ` set (e # es)" unfolding img using i1 True by blast
    have g2: "set (snd ?r) \<subseteq> set queue \<union> ?f ` set (e # es)" unfolding img using i2 by blast
    from g1 g2 i3 i4 show ?thesis unfolding eq by (intro conjI)
  next
    case False
    let ?r = "visit_edges fwd es (insert ?t seen, queue @ [?t])"
    have eq: "visit_edges fwd (e # es) (seen, queue) = ?r"
      using False by (simp add: Let_def)
    from Cons.IH [of "insert ?t seen" "queue @ [?t]"]
    have i1: "fst ?r = insert ?t seen \<union> ?f ` set es"
      and i2: "set (snd ?r) \<subseteq> set (queue @ [?t]) \<union> ?f ` set es"
      and i3: "set (queue @ [?t]) \<subseteq> set (snd ?r)"
      and i4: "fst ?r - insert ?t seen \<subseteq> set (snd ?r)" by blast+
    have q: "set (queue @ [?t]) = insert ?t (set queue)" by simp
    have g1: "fst ?r = seen \<union> ?f ` set (e # es)" unfolding img using i1 by blast
    have g2: "set (snd ?r) \<subseteq> set queue \<union> ?f ` set (e # es)"
      unfolding img using i2 unfolding q by blast
    have g3: "set queue \<subseteq> set (snd ?r)" using i3 unfolding q by blast
    have g4: "fst ?r - seen \<subseteq> set (snd ?r)" using i3 i4 unfolding q by blast
    from g1 g2 g3 g4 show ?thesis unfolding eq by (intro conjI)
  qed
qed

lemma bfs_loop_reachable:
  assumes "set queue \<subseteq> seen"
    and "\<forall>v \<in> seen - set queue. step g fwd `` {v} \<subseteq> seen"
  shows "bfs_loop g fwd queue seen = (step g fwd)\<^sup>* `` seen"
  using assms
proof (induction g fwd queue seen rule: bfs_loop.induct)
  case (1 g fwd seen)
  then have closed: "step g fwd `` seen \<subseteq> seen" by auto
  have "(step g fwd)\<^sup>* `` seen \<subseteq> seen"
  proof
    fix y assume "y \<in> (step g fwd)\<^sup>* `` seen"
    then obtain x where "x \<in> seen" and "(x, y) \<in> (step g fwd)\<^sup>*" by blast
    from this(2) this(1) show "y \<in> seen"
      by (induction rule: rtrancl_induct) (use closed in blast)+
  qed
  then show ?case by auto
next
  case (2 g fwd current queue seen)
  let ?edges = "if fwd then outgoing g current else incoming g current"
  let ?r = "visit_edges fwd ?edges (seen, queue)"
  let ?targets = "(\<lambda>e. if fwd then To e else From e) ` set ?edges"
  have succ: "?targets = step g fwd `` {current}"
    by (auto simp: step_def outgoing_def incoming_def image_iff)
  from visit_edges_result [of fwd ?edges seen queue]
  have v': "fst ?r = seen \<union> ?targets"
    and q1: "set (snd ?r) \<subseteq> set queue \<union> ?targets"
    and q2: "set queue \<subseteq> set (snd ?r)"
    and q3: "fst ?r - seen \<subseteq> set (snd ?r)" by blast+
  from "2.prems"(1) have cur: "current \<in> seen" and qsub: "set queue \<subseteq> seen" by simp_all
  have sub: "set (snd ?r) \<subseteq> fst ?r" using q1 qsub v' by blast
  have closed: "\<forall>v \<in> fst ?r - set (snd ?r). step g fwd `` {v} \<subseteq> fst ?r"
  proof
    fix v assume v: "v \<in> fst ?r - set (snd ?r)"
    show "step g fwd `` {v} \<subseteq> fst ?r"
    proof (cases "v = current")
      case True
      then show ?thesis using v' succ by blast
    next
      case False
      have "v \<in> seen"
      proof (rule ccontr)
        assume "v \<notin> seen"
        with v v' have "v \<in> ?targets" by blast
        with v q3 \<open>v \<notin> seen\<close> show False by blast
      qed
      moreover from v q2 have "v \<notin> set queue" by blast
      ultimately have "v \<in> seen - set (current # queue)" using False by simp
      with "2.prems"(2) have "step g fwd `` {v} \<subseteq> seen" by blast
      with v' show ?thesis by blast
    qed
  qed
  have "bfs_loop g fwd (current # queue) seen = bfs_loop g fwd (snd ?r) (fst ?r)"
    by (simp add: Let_def)
  also have "\<dots> = (step g fwd)\<^sup>* `` fst ?r"
    using "2.IH" [OF refl refl sub closed] .
  also have "\<dots> = (step g fwd)\<^sup>* `` seen"
  proof -
    have "(step g fwd)\<^sup>* `` ?targets \<subseteq> (step g fwd)\<^sup>* `` seen"
    proof
      fix y assume "y \<in> (step g fwd)\<^sup>* `` ?targets"
      then obtain x where x: "x \<in> ?targets" and xy: "(x, y) \<in> (step g fwd)\<^sup>*" by blast
      from x succ have cx: "(current, x) \<in> (step g fwd)\<^sup>*" by blast
      from cx xy have "(current, y) \<in> (step g fwd)\<^sup>*" by (rule rtrancl_trans)
      with cur show "y \<in> (step g fwd)\<^sup>* `` seen" by blast
    qed
    then show ?thesis unfolding v' by blast
  qed
  finally show ?case .
qed

lemma step_reaches_nodes:
  "(u, y) \<in> (step g fwd)\<^sup>* \<Longrightarrow> y = u \<or> y \<in> graph_nodes g"
  by (induction rule: rtrancl_induct) (auto simp: step_def graph_nodes_def split: if_splits)

lemma ReachableFrom_reachable:
  "set (ReachableFrom g u direction) = (step g (direction = ''forward''))\<^sup>* `` {u} - {u}
   \<and> sorted (ReachableFrom g u direction) \<and> distinct (ReachableFrom g u direction)
   \<and> length (ReachableFrom g u direction)
       = card ((step g (direction = ''forward''))\<^sup>* `` {u} - {u})"
proof -
  let ?R = "(step g (direction = ''forward''))\<^sup>* `` {u}"
  have bfs: "bfs_loop g (direction = ''forward'') [u] {u} = ?R"
    by (rule bfs_loop_reachable) simp_all
  have "?R \<subseteq> insert u (graph_nodes g)"
    using step_reaches_nodes by fastforce
  moreover have "finite (insert u (graph_nodes g))" by (simp add: graph_nodes_def)
  ultimately have fin: "finite (?R - {u})" by (meson finite_Diff finite_subset)
  have eq: "ReachableFrom g u direction = sorted_list_of_set (?R - {u})"
    by (simp only: ReachableFrom_def Let_def bfs)
  show ?thesis
    unfolding eq using fin by (simp add: distinct_card [symmetric] del: Diff_iff)
qed

subsection \<open>Timeout deadlocks\<close>

lemma timeout_deadlock_of_cases:
  "timeout_deadlock_of g name unit \<noteq> [] \<longleftrightarrow>
     (\<exists>u. unit = Some u \<and> GetDirective u ''Unit'' ''JobTimeoutSec'' \<noteq> []
        \<and> length (TransitiveDependencies g name) > 10 \<and> afterCount g name > 3)"
  by (cases unit) (simp_all add: timeout_deadlock_of_def Let_def)

lemma timeout_deadlock_of_member:
  "d \<in> set (timeout_deadlock_of g name unit) \<Longrightarrow> td_Unit d = name \<and> td_Severity d = ''medium''"
  by (cases unit) (auto simp: timeout_deadlock_of_def Let_def split: if_splits)

lemma timeout_deadlock_of_units:
  "td_Unit ` set (timeout_deadlock_of g name unit)
     = (if timeout_deadlock_of g name unit \<noteq> [] then {name} else {})"
proof (cases "timeout_deadlock_of g name unit = []")
  case True
  then show ?thesis by simp
next
  case False
  then obtain d where d: "d \<in> set (timeout_deadlock_of g name unit)"
    by (meson last_in_set)
  from timeout_deadlock_of_member have "td_Unit ` set (timeout_deadlock_of g name unit) \<subseteq> {name}"
    by blast
  moreover from d timeout_deadlock_of_member have "name \<in> td_Unit ` set (timeout_deadlock_of g name unit)"
    by force
  ultimately show ?thesis using False by auto
qed

lemma DetectTimeoutDeadlocks_by_count:
  "td_Unit ` set (DetectTimeoutDeadlocks g us)
     = {name. \<exists>u. (name, Some u) \<in> set us
          \<and> GetDirective u ''Unit'' ''JobTimeoutSec'' \<noteq> []
          \<and> length (TransitiveDependencies g name) > 10 \<and> afterCount g name > 3}
   \<and> (\<forall>d \<in> set (DetectTimeoutDeadlocks g us). td_Severity d = ''medium'')"
proof -
  have origin: "\<exists>name unit. (name, unit) \<in> set us \<and> d \<in> set (timeout_deadlock_of g name unit)"
    if "d \<in> set (DetectTimeoutDeadlocks g us)" for d
    using that unfolding DetectTimeoutDeadlocks_def by auto
  have member: "d \<in> set (DetectTimeoutDeadlocks g us)"
    if "(name, unit) \<in> set us" "d \<in> set (timeout_deadlock_of g name unit)" for d name unit
    using that unfolding DetectTimeoutDeadlocks_def by force
  have first: "td_Unit ` set (DetectTimeoutDeadlocks g us)
     = {name. \<exists>u. (name, Some u) \<in> set us
          \<and> GetDirective u ''Unit'' ''JobTimeoutSec'' \<noteq> []
          \<and> length (TransitiveDependencies g name) > 10 \<and> afterCount g name > 3}"
  proof (rule set_eqI)
    fix name
    show "name \<in> td_Unit ` set (DetectTimeoutDeadlocks g us) \<longleftrightarrow>
      name \<in> {name. \<exists>u. (name, Some u) \<in> set us
          \<and> GetDirective u ''Unit'' ''JobTimeoutSec'' \<noteq> []
          \<and> length (TransitiveDependencies g name) > 10 \<and> afterCount g name > 3}"
    proof
      assume "name \<in> td_Unit ` set (DetectTimeoutDeadlocks g us)"
      then obtain d where d: "d \<in> set (DetectTimeoutDeadlocks g us)" and n: "td_Unit d = name"
        by blast
      from origin [OF d] obtain n' unit where mem: "(n', unit) \<in> set us"
        and dm: "d \<in> set (timeout_deadlock_of g n' unit)" by blast
      from timeout_deadlock_of_member [OF dm] n have eq: "n' = name" by simp
      from dm have "timeout_deadlock_of g n' unit \<noteq> []" by auto
      then obtain u where "unit = Some u" "GetDirective u ''Unit'' ''JobTimeoutSec'' \<noteq> []"
        "length (TransitiveDependencies g n') > 10" "afterCount g n' > 3"
        unfolding timeout_deadlock_of_cases by blast
      with mem eq show "name \<in> {name. \<exists>u. (name, Some u) \<in> set us
          \<and> GetDirective u ''Unit'' ''JobTimeoutSec'' \<noteq> []
          \<and> length (TransitiveDependencies g name) > 10 \<and> afterCount g name > 3}"
        by blast
    next
      assume "name \<in> {name. \<exists>u. (name, Some u) \<in> set us
          \<and> GetDirective u ''Unit'' ''JobTimeoutSec'' \<noteq> []
          \<and> length (TransitiveDependencies g name) > 10 \<and> afterCount g name > 3}"
      then obtain u where mem: "(name, Some u) \<in> set us"
        and c: "GetDirective u ''Unit'' ''JobTimeoutSec'' \<noteq> []"
          "length (TransitiveDependencies g name) > 10" "afterCount g name > 3"
        by blast
      from c have "timeout_deadlock_of g name (Some u) \<noteq> []"
        unfolding timeout_deadlock_of_cases by blast
      then obtain d where dm: "d \<in> set (timeout_deadlock_of g name (Some u))"
        by (meson last_in_set)
      from timeout_deadlock_of_member [OF dm] have "td_Unit d = name" by simp
      with member [OF mem dm] show "name \<in> td_Unit ` set (DetectTimeoutDeadlocks g us)"
        by blast
    qed
  qed
  have second: "\<forall>d \<in> set (DetectTimeoutDeadlocks g us). td_Severity d = ''medium''"
  proof
    fix d assume "d \<in> set (DetectTimeoutDeadlocks g us)"
    from origin [OF this] obtain name unit where "d \<in> set (timeout_deadlock_of g name unit)"
      by blast
    from timeout_deadlock_of_member [OF this] show "td_Severity d = ''medium''" by simp
  qed
  from first second show ?thesis by (rule conjI)
qed

lemma TransitiveDependencies_count:
  "length (TransitiveDependencies g name) = card ((step g True)\<^sup>* `` {name} - {name})"
  using ReachableFrom_reachable [of g name "''forward''"]
  by (simp add: TransitiveDependencies_def)

text \<open>
  C6 (amended). \<open>DetectTimeoutDeadlocks\<close> flags, with severity medium, exactly the units of
  the map that are not nil, whose first \<open>JobTimeoutSec\<close> value is not empty, and that have
  more than 10 transitive forward dependencies (units other than itself that are reachable
  along edges) and more than 3 direct After edges.
\<close>

theorem DetectTimeoutDeadlocks_flags:
  "td_Unit ` set (DetectTimeoutDeadlocks g us)
     = {name. \<exists>u. (name, Some u) \<in> set us
          \<and> GetDirective u ''Unit'' ''JobTimeoutSec'' \<noteq> []
          \<and> card ((step g True)\<^sup>* `` {name} - {name}) > 10 \<and> afterCount g name > 3}
   \<and> (\<forall>d \<in> set (DetectTimeoutDeadlocks g us). td_Severity d = ''medium'')"
  by (rule DetectTimeoutDeadlocks_by_count [unfolded TransitiveDependencies_count])

theorem DetectTimeoutDeadlocks_flags_witness:
  "card ((step eleven_deps_graph True)\<^sup>* `` {''u.service''} - {''u.service''}) = 11
   \<and> afterCount eleven_deps_graph ''u.service'' = 4
   \<and> GetDirective job_unit ''Unit'' ''JobTimeoutSec'' = ''30s''
   \<and> ''u.service'' \<in> td_Unit ` set (DetectTimeoutDeadlocks eleven_deps_graph [(''u.service'', Some job_unit)])
   \<and> list_all (\<lambda>d. td_Severity d = ''medium'')
         (DetectTimeoutDeadlocks eleven_deps_graph [(''u.service'', Some job_unit)])"
proof -
  let ?us = "[(''u.service'', Some job_unit)]"
  have b: "GetDirective job_unit ''Unit'' ''JobTimeoutSec'' = ''30s''" by code_simp
  have "length (TransitiveDependencies eleven_deps_graph ''u.service'') = 11" by code_simp
  then have c: "card ((step eleven_deps_graph True)\<^sup>* `` {''u.service''} - {''u.service''}) = 11"
    by (simp only: TransitiveDependencies_count)
  have d: "afterCount eleven_deps_graph ''u.service'' = 4" by code_simp
  note inst = DetectTimeoutDeadlocks_flags [of eleven_deps_graph ?us]
  have "''u.service'' \<in> {name. \<exists>u. (name, Some u) \<in> set ?us
          \<and> GetDirective u ''Unit'' ''JobTimeoutSec'' \<noteq> []
          \<and> card ((step eleven_deps_graph True)\<^sup>* `` {name} - {name}) > 10
          \<and> afterCount eleven_deps_graph name > 3}"
    using b c d by simp
  with inst have a: "''u.service'' \<in> td_Unit ` set (DetectTimeoutDeadlocks eleven_deps_graph ?us)"
    by (simp only:)
  from inst have "\<forall>d \<in> set (DetectTimeoutDeadlocks eleven_deps_graph ?us). td_Severity d = ''medium''"
    by (rule conjunct2)
  then have e: "list_all (\<lambda>d. td_Severity d = ''medium'') (DetectTimeoutDeadlocks eleven_deps_graph ?us)"
    unfolding list_all_iff .
  from c d b a e show ?thesis by (intro conjI)
qed

text \<open>
  At the thresholds named by the specification the detector stays silent: a unit with a job timeout, exactly ten
  transitive dependencies and exactly three direct After edges is not flagged.
\<close>

theorem DetectTimeoutDeadlocks_counterexample:
  "GetDirective job_unit ''Unit'' ''JobTimeoutSec'' = ''30s''
   \<and> length (TransitiveDependencies ten_deps_graph ''u.service'') = 10
   \<and> afterCount ten_deps_graph ''u.service'' = 3
   \<and> DetectTimeoutDeadlocks ten_deps_graph [(''u.service'', Some job_unit)] = []"
proof -
  have a: "GetDirective job_unit ''Unit'' ''JobTimeoutSec'' = ''30s''" by code_simp
  have b: "length (TransitiveDependencies ten_deps_graph ''u.service'') = 10" by code_simp
  have c: "afterCount ten_deps_graph ''u.service'' = 3" by code_simp
  have d: "DetectTimeoutDeadlocks ten_deps_graph [(''u.service'', Some job_unit)] = []" by code_simp
  from a b c d show ?thesis by (intro conjI)
qed

subsection \<open>Network dependency with a tight timeout\<close>

lemma scan_network_edges_flag:
  "fst (scan_network_edges es acc) \<longleftrightarrow>
     fst acc \<or> (\<exists>e \<in> set es. \<exists>nt \<in> set networkTargets. network_edge e nt)"
proof (induction es arbitrary: acc)
  case Nil
  show ?case by simp
next
  case (Cons e es)
  show ?case
  proof (cases "find (network_edge e) networkTargets")
    case None
    then have "\<not> (\<exists>nt \<in> set networkTargets. network_edge e nt)"
      by (simp add: find_None_iff)
    with None Cons.IH [of acc] show ?thesis by simp
  next
    case (Some nt)
    then obtain i where "i < length networkTargets" "network_edge e (networkTargets ! i)"
      unfolding find_Some_iff by blast
    then have "\<exists>nt \<in> set networkTargets. network_edge e nt"
      using nth_mem by blast
    with Some Cons.IH [of "(True, nt)"] show ?thesis by simp
  qed
qed

lemma scan_network_edges_depends:
  "fst (scan_network_edges (EdgesFrom g name) (False, [])) \<longleftrightarrow> depends_on_network g name"
  unfolding scan_network_edges_flag depends_on_network_def
  by (auto simp: networkTargets_def network_edge_def)

lemma network_risk_of_unfold:
  "network_risk_of dstring g timeouts unit =
     (if \<not> depends_on_network g (Name unit) then []
      else
        (case timeouts (Name unit) of
           None \<Rightarrow> []
         | Some tc \<Rightarrow>
             if TimeoutStartSec tc > 0 \<and> TimeoutStartSec tc < 30 * Second
             then [\<lparr> cr_Unit = Name unit,
                    CriticalPath = 0,
                    OwnTimeout = TimeoutStartSec tc,
                    Risk = network_risk_class (TimeoutStartSec tc),
                    cr_Description = Name unit @ '' depends on ''
                      @ snd (scan_network_edges (EdgesFrom g (Name unit)) (False, []))
                      @ '' but has TimeoutStartSec='' @ FormatDuration dstring (TimeoutStartSec tc)
                      @ ''. Network initialization can take 30+ seconds on slow/unreliable networks.'',
                    Recommendation =
                      ''Increase TimeoutStartSec to at least 60s for network-dependent services'',
                    cr_File = Source tc,
                    cr_Line = 0 \<rparr>]
             else []))"
  unfolding network_risk_of_def Let_def case_prod_beta network_risk_class_def
    scan_network_edges_depends
  by (rule refl)

lemma network_risk_of_cases:
  "network_risk_of dstring g timeouts unit \<noteq> [] \<longleftrightarrow>
     depends_on_network g (Name unit)
     \<and> (\<exists>tc. timeouts (Name unit) = Some tc \<and> 0 < TimeoutStartSec tc \<and> TimeoutStartSec tc < 30 * Second)"
proof (cases "timeouts (Name unit)")
  case None
  then show ?thesis by (simp add: network_risk_of_unfold)
next
  case (Some tc)
  then show ?thesis by (simp add: network_risk_of_unfold)
qed

lemma network_risk_of_member:
  assumes "r \<in> set (network_risk_of dstring g timeouts unit)"
  shows "\<exists>tc. timeouts (Name unit) = Some tc \<and> cr_Unit r = Name unit
           \<and> OwnTimeout r = TimeoutStartSec tc \<and> Risk r = network_risk_class (TimeoutStartSec tc)"
proof (cases "timeouts (Name unit)")
  case None
  then have "network_risk_of dstring g timeouts unit = []"
    by (simp add: network_risk_of_unfold)
  with assms show ?thesis by simp
next
  case (Some tc)
  show ?thesis
  proof (cases "depends_on_network g (Name unit)
      \<and> TimeoutStartSec tc > 0 \<and> TimeoutStartSec tc < 30 * Second")
    case False
    with Some have "network_risk_of dstring g timeouts unit = []"
      by (auto simp: network_risk_of_unfold)
    with assms show ?thesis by simp
  next
    case True
    with Some have "cr_Unit ` set (network_risk_of dstring g timeouts unit) = {Name unit}"
      "OwnTimeout ` set (network_risk_of dstring g timeouts unit) = {TimeoutStartSec tc}"
      "Risk ` set (network_risk_of dstring g timeouts unit) = {network_risk_class (TimeoutStartSec tc)}"
      by (simp_all add: network_risk_of_unfold)
    with assms have "cr_Unit r = Name unit" "OwnTimeout r = TimeoutStartSec tc"
      "Risk r = network_risk_class (TimeoutStartSec tc)" by blast+
    with Some show ?thesis by blast
  qed
qed

text \<open>
  C7 (amended). The detector emits a risk for exactly the units of the graph that have an
  After, Requires or Wants edge to \<open>network-online.target\<close> or \<open>network.target\<close>, have an entry
  in the timeout table, and whose \<open>TimeoutStartSec\<close> is greater than zero (zero stands for no
  timeout) and less than 30 seconds; the risk is critical below 10 seconds, medium from
  20 seconds and high in between.
\<close>

theorem detectNetworkDependencyRisks_flags:
  "(\<forall>r \<in> set (detectNetworkDependencyRisks dstring g timeouts).
      \<exists>unit \<in> set (Units g). \<exists>tc.
        cr_Unit r = Name unit \<and> depends_on_network g (Name unit)
        \<and> timeouts (Name unit) = Some tc
        \<and> 0 < TimeoutStartSec tc \<and> TimeoutStartSec tc < 30 * Second
        \<and> OwnTimeout r = TimeoutStartSec tc
        \<and> Risk r = (if TimeoutStartSec tc < 10 * Second then ''critical''
                     else if TimeoutStartSec tc \<ge> 20 * Second then ''medium'' else ''high''))
   \<and> (\<forall>unit \<in> set (Units g). \<forall>tc.
        depends_on_network g (Name unit) \<and> timeouts (Name unit) = Some tc
        \<and> 0 < TimeoutStartSec tc \<and> TimeoutStartSec tc < 30 * Second
        \<longrightarrow> (\<exists>r \<in> set (detectNetworkDependencyRisks dstring g timeouts).
               cr_Unit r = Name unit
               \<and> Risk r = (if TimeoutStartSec tc < 10 * Second then ''critical''
                            else if TimeoutStartSec tc \<ge> 20 * Second then ''medium'' else ''high'')))"
proof (intro conjI ballI allI impI)
  fix r assume "r \<in> set (detectNetworkDependencyRisks dstring g timeouts)"
  then obtain unit where unit: "unit \<in> set (Units g)"
    and r: "r \<in> set (network_risk_of dstring g timeouts unit)"
    by (auto simp: detectNetworkDependencyRisks_def)
  from r have ne: "network_risk_of dstring g timeouts unit \<noteq> []" by auto
  from network_risk_of_member [OF r] obtain tc where tc: "timeouts (Name unit) = Some tc"
    "cr_Unit r = Name unit" "OwnTimeout r = TimeoutStartSec tc"
    "Risk r = network_risk_class (TimeoutStartSec tc)" by blast
  from ne tc(1) have "depends_on_network g (Name unit)"
    "0 < TimeoutStartSec tc" "TimeoutStartSec tc < 30 * Second"
    unfolding network_risk_of_cases by simp_all
  with unit tc show "\<exists>unit \<in> set (Units g). \<exists>tc.
        cr_Unit r = Name unit \<and> depends_on_network g (Name unit)
        \<and> timeouts (Name unit) = Some tc
        \<and> 0 < TimeoutStartSec tc \<and> TimeoutStartSec tc < 30 * Second
        \<and> OwnTimeout r = TimeoutStartSec tc
        \<and> Risk r = (if TimeoutStartSec tc < 10 * Second then ''critical''
                     else if TimeoutStartSec tc \<ge> 20 * Second then ''medium'' else ''high'')"
    unfolding network_risk_class_def by blast
next
  fix unit tc
  assume unit: "unit \<in> set (Units g)"
    and h: "depends_on_network g (Name unit) \<and> timeouts (Name unit) = Some tc
        \<and> 0 < TimeoutStartSec tc \<and> TimeoutStartSec tc < 30 * Second"
  then have "network_risk_of dstring g timeouts unit \<noteq> []"
    unfolding network_risk_of_cases by blast
  then obtain r where r: "r \<in> set (network_risk_of dstring g timeouts unit)"
    by (meson last_in_set)
  from network_risk_of_member [OF r] h
  have "cr_Unit r = Name unit" "Risk r = network_risk_class (TimeoutStartSec tc)" by auto
  moreover from unit r have "r \<in> set (detectNetworkDependencyRisks dstring g timeouts)"
    by (auto simp: detectNetworkDependencyRisks_def)
  ultimately show "\<exists>r \<in> set (detectNetworkDependencyRisks dstring g timeouts).
               cr_Unit r = Name unit
               \<and> Risk r = (if TimeoutStartSec tc < 10 * Second then ''critical''
                            else if TimeoutStartSec tc \<ge> 20 * Second then ''medium'' else ''high'')"
    unfolding network_risk_class_def by blast
qed

theorem detectNetworkDependencyRisks_flags_witness:
  "demo_named ''web.service'' \<in> set (Units net_graph)
   \<and> depends_on_network net_graph ''web.service''
   \<and> map Risk (detectNetworkDependencyRisks (\<lambda>_. []) net_graph
        [''web.service'' \<mapsto> timeout_config ''web.service'' (5 * Second)]) = [''critical'']
   \<and> (\<exists>r \<in> set (detectNetworkDependencyRisks (\<lambda>_. []) net_graph
        [''web.service'' \<mapsto> timeout_config ''web.service'' (5 * Second)]).
        cr_Unit r = ''web.service'' \<and> Risk r = ''critical'')"
proof -
  let ?t = "[''web.service'' \<mapsto> timeout_config ''web.service'' (5 * Second)]"
  let ?u = "demo_named ''web.service''"
  let ?tc = "timeout_config ''web.service'' (5 * Second)"
  have u: "?u \<in> set (Units net_graph)" by (simp add: Units_def net_graph_def)
  have n: "Name ?u = ''web.service''" by (simp add: demo_named_def)
  have dep: "depends_on_network net_graph ''web.service''"
    by (simp add: depends_on_network_def EdgesFrom_def outgoing_def net_graph_def edge_def)
  have risks: "map Risk (detectNetworkDependencyRisks (\<lambda>_. []) net_graph ?t) = [''critical'']"
    by code_simp
  have t: "TimeoutStartSec ?tc = 5 * Second" by (simp add: timeout_config_def)
  have hyp: "depends_on_network net_graph (Name ?u) \<and> ?t (Name ?u) = Some ?tc
        \<and> 0 < TimeoutStartSec ?tc \<and> TimeoutStartSec ?tc < 30 * Second"
    using dep by (simp add: n timeout_config_def Second_def)
  from detectNetworkDependencyRisks_flags [of "\<lambda>_. []" net_graph ?t, THEN conjunct2, rule_format, OF u hyp]
  have "\<exists>r \<in> set (detectNetworkDependencyRisks (\<lambda>_. []) net_graph ?t).
        cr_Unit r = ''web.service'' \<and> Risk r = ''critical''"
    by (simp add: n timeout_config_def Second_def)
  with u dep risks show ?thesis by (intro conjI)
qed

text \<open>
  For a unit whose start timeout is zero the detector stays silent: zero is less than
  30 seconds, the unit is ordered after \<open>network.target\<close>, and no risk is emitted.
\<close>

theorem detectNetworkDependencyRisks_counterexample:
  "depends_on_network net_graph ''web.service''
   \<and> TimeoutStartSec (timeout_config ''web.service'' 0) < 30 * Second
   \<and> detectNetworkDependencyRisks (\<lambda>_. []) net_graph
        [''web.service'' \<mapsto> timeout_config ''web.service'' 0] = []"
proof -
  have dep: "depends_on_network net_graph ''web.service''"
    by (simp add: depends_on_network_def EdgesFrom_def outgoing_def net_graph_def edge_def)
  have t: "TimeoutStartSec (timeout_config ''web.service'' 0) < 30 * Second"
    by (simp add: timeout_config_def Second_def)
  have none: "detectNetworkDependencyRisks (\<lambda>_. []) net_graph
        [''web.service'' \<mapsto> timeout_config ''web.service'' 0] = []"
    by code_simp
  from dep t none show ?thesis by (intro conjI)
qed

subsection \<open>Failure simulation\<close>

lemma newImpact_of_sweep:
  "newImpact_of impactType sem =
     (if sweep_flag impactType sem then (sweep_impact impactType, True) else ([], False))"
  by (simp add: newImpact_of_def sweep_flag_def sweep_impact_def)

lemma sweep_flag_type: "sweep_flag impactType sem \<Longrightarrow> impactType = ''fail'' \<or> impactType = ''stop''"
  by (simp add: sweep_flag_def split: if_splits)

lemma sweep_impact_type:
  "sweep_impact impactType = ''fail'' \<or> sweep_impact impactType = ''stop''
     \<Longrightarrow> impactType = ''stop'' \<and> sweep_impact impactType = ''stop''"
  by (simp add: sweep_impact_def split: if_splits)

lemma record_ok_nested: "record_ok g fu (sweep_impact impactType) au \<Longrightarrow> record_ok g fu impactType au"
proof -
  assume ok: "record_ok g fu (sweep_impact impactType) au"
  then have "sweep_flag (sweep_impact impactType) (GetSemantics (au_EdgeType au))"
    by (simp add: record_ok_def)
  then have "sweep_impact impactType = ''fail'' \<or> sweep_impact impactType = ''stop''"
    by (rule sweep_flag_type)
  then have "sweep_impact impactType = impactType"
    using sweep_impact_type by metis
  with ok show ?thesis by simp
qed

lemma chain_along_snoc:
  "path \<noteq> [] \<Longrightarrow>
   chain_along g flag (path @ [b]) \<longleftrightarrow>
     chain_along g flag path
     \<and> list_ex (\<lambda>e. To e = last path \<and> From e = b \<and> flag (GetSemantics (Type e))) (allEdges g)"
proof (induction path)
  case Nil
  then show ?case by simp
next
  case (Cons a path)
  show ?case
  proof (cases path)
    case Nil
    then show ?thesis by simp
  next
    case (Cons c rest)
    with Cons.IH show ?thesis by simp
  qed
qed

lemma propagate_records:
  "propagate n g unit path impactType st = Some st' \<Longrightarrow>
     path \<noteq> [] \<Longrightarrow> last path = unit \<Longrightarrow> hd path = fu \<Longrightarrow>
     (impactType = ''fail'' \<or> impactType = ''stop'' \<longrightarrow> chain_along g (sweep_flag impactType) path) \<Longrightarrow>
     \<exists>new. affected st' = affected st @ new \<and> (\<forall>au \<in> set new. record_ok g fu impactType au)"
  and propagate_edges_records:
  "propagate_edges n g es path impactType st = Some st' \<Longrightarrow>
     path \<noteq> [] \<Longrightarrow> hd path = fu \<Longrightarrow>
     (\<forall>e \<in> set es. To e = last path \<and> e \<in> set (allEdges g)) \<Longrightarrow>
     (impactType = ''fail'' \<or> impactType = ''stop'' \<longrightarrow> chain_along g (sweep_flag impactType) path) \<Longrightarrow>
     \<exists>new. affected st' = affected st @ new \<and> (\<forall>au \<in> set new. record_ok g fu impactType au)"
proof (induction n g unit path impactType st and n g es path impactType st
    arbitrary: st' and st' rule: propagate_propagate_edges.induct)
  case (1 g unit path impactType st)
  then show ?case by simp
next
  case (2 n g unit path impactType st)
  show ?case
  proof (cases "unit \<in> visited st")
    case True
    with "2.prems"(1) have "st' = st" by simp
    then show ?thesis by simp
  next
    case False
    with "2.prems"(1)
    have run: "propagate_edges n g (EdgesTo g unit) path impactType
        (st\<lparr> visited := insert unit (visited st) \<rparr>) = Some st'" by simp
    have edges: "\<forall>e \<in> set (EdgesTo g unit). To e = last path \<and> e \<in> set (allEdges g)"
      using "2.prems"(3) by (simp add: EdgesTo_def incoming_def)
    from "2.IH" [OF False run "2.prems"(2) "2.prems"(4) edges "2.prems"(5)]
    show ?thesis by simp
  qed
next
  case (3 n g path impactType st)
  then show ?case by simp
next
  case (4 n g edge edges path impactType st)
  let ?sem = "GetSemantics (Type edge)"
  let ?dep = "From edge"
  let ?newPath = "path @ [?dep]"
  let ?it' = "sweep_impact impactType"
  let ?au = "\<lparr> au_Name = ?dep, Impact = ?it', PropagationPath = ?newPath,
               au_EdgeType = Type edge, au_Severity = edge_severity (Type edge) \<rparr>"
  let ?st0 = "st\<lparr> affected := affected st @ [?au] \<rparr>"
  from "4.prems"(4) have to: "To edge = last path" and mem: "edge \<in> set (allEdges g)"
    and rest: "\<forall>e \<in> set edges. To e = last path \<and> e \<in> set (allEdges g)"
    by simp_all
  show ?case
  proof (cases "sweep_flag impactType ?sem \<and> ?dep \<notin> visited st")
    case False
    then have cond: "\<not> (snd (newImpact_of impactType ?sem) \<and> ?dep \<notin> visited st)"
      by (auto simp: newImpact_of_sweep)
    with "4.prems"(1) have run: "propagate_edges n g edges path impactType st = Some st'"
      by (simp add: Let_def case_prod_beta)
    from "4.IH"(3) [OF refl refl refl refl prod.collapse cond run
        "4.prems"(2) "4.prems"(3) rest "4.prems"(5)]
    show ?thesis .
  next
    case True
    then have flag: "sweep_flag impactType ?sem" and unseen: "?dep \<notin> visited st" by simp_all
    from flag have ni: "newImpact_of impactType ?sem = (?it', True)"
      by (simp add: newImpact_of_sweep)
    have cond: "True \<and> ?dep \<notin> visited st"
      using unseen by simp
    from "4.prems"(1) ni unseen
    have run: "(case propagate n g ?dep ?newPath ?it' ?st0 of
                  None \<Rightarrow> None
                | Some st1 \<Rightarrow> propagate_edges n g edges path impactType st1) = Some st'"
      by (simp add: Let_def)
    then obtain st1 where run1: "propagate n g ?dep ?newPath ?it' ?st0 = Some st1"
      and run2: "propagate_edges n g edges path impactType st1 = Some st'"
      by (auto split: option.splits)
    from flag have kind: "impactType = ''fail'' \<or> impactType = ''stop''"
      by (rule sweep_flag_type)
    with "4.prems"(5) have chain: "chain_along g (sweep_flag impactType) path" by simp
    have step: "list_ex (\<lambda>e. To e = last path \<and> From e = ?dep
        \<and> sweep_flag impactType (GetSemantics (Type e))) (allEdges g)"
      unfolding list_ex_iff using to mem flag by blast
    have chain': "chain_along g (sweep_flag impactType) ?newPath"
      using chain step "4.prems"(2) by (simp add: chain_along_snoc)
    have nested_chain: "?it' = ''fail'' \<or> ?it' = ''stop'' \<longrightarrow> chain_along g (sweep_flag ?it') ?newPath"
    proof
      assume "?it' = ''fail'' \<or> ?it' = ''stop''"
      then have "?it' = impactType" using sweep_impact_type by metis
      with chain' show "chain_along g (sweep_flag ?it') ?newPath" by simp
    qed
    have hd': "hd ?newPath = fu" using "4.prems"(2) "4.prems"(3) by simp
    from "4.IH"(1) [OF refl refl refl refl, of ?it' True, OF ni [symmetric] cond]
    have ih1: "\<And>st'. propagate n g ?dep ?newPath ?it' ?st0 = Some st' \<Longrightarrow>
        ?newPath \<noteq> [] \<Longrightarrow> last ?newPath = ?dep \<Longrightarrow> hd ?newPath = fu \<Longrightarrow>
        (?it' = ''fail'' \<or> ?it' = ''stop'' \<longrightarrow> chain_along g (sweep_flag ?it') ?newPath) \<Longrightarrow>
        \<exists>new. affected st' = affected ?st0 @ new \<and> (\<forall>au \<in> set new. record_ok g fu ?it' au)"
      by blast
    from ih1 [OF run1 _ _ hd' nested_chain]
    obtain new1 where a1: "affected st1 = affected ?st0 @ new1"
      and ok1: "\<forall>au \<in> set new1. record_ok g fu ?it' au" by auto
    from "4.IH"(2) [OF refl refl refl refl, of ?it' True st1, OF ni [symmetric] cond run1]
    have ih2: "\<And>st'. propagate_edges n g edges path impactType st1 = Some st' \<Longrightarrow>
        path \<noteq> [] \<Longrightarrow> hd path = fu \<Longrightarrow>
        (\<forall>e \<in> set edges. To e = last path \<and> e \<in> set (allEdges g)) \<Longrightarrow>
        (impactType = ''fail'' \<or> impactType = ''stop'' \<longrightarrow> chain_along g (sweep_flag impactType) path) \<Longrightarrow>
        \<exists>new. affected st' = affected st1 @ new \<and> (\<forall>au \<in> set new. record_ok g fu impactType au)"
      by blast
    from ih2 [OF run2 "4.prems"(2) "4.prems"(3) rest "4.prems"(5)]
    obtain new2 where a2: "affected st' = affected st1 @ new2"
      and ok2: "\<forall>au \<in> set new2. record_ok g fu impactType au" by auto
    have last_edge: "list_ex (\<lambda>e. To e = last (butlast ?newPath) \<and> From e = ?dep
        \<and> Type e = Type edge) (allEdges g)"
      unfolding list_ex_iff using to mem by auto
    have ok0: "record_ok g fu impactType ?au"
      using flag chain' hd' last_edge "4.prems"(2)
      by (simp add: record_ok_def reached_along_def Suc_le_eq)
    from ok1 have ok1': "\<forall>au \<in> set new1. record_ok g fu impactType au"
      using record_ok_nested by blast
    have "affected st' = affected st @ (?au # new1 @ new2)"
      using a1 a2 by simp
    moreover have "\<forall>au \<in> set (?au # new1 @ new2). record_ok g fu impactType au"
      using ok0 ok1' ok2 by auto
    ultimately show ?thesis by blast
  qed
qed

lemma propagate_edges_other_type:
  "impactType \<noteq> ''fail'' \<Longrightarrow> impactType \<noteq> ''stop'' \<Longrightarrow>
     propagate_edges n g es path impactType st = Some st"
  by (induction es) (simp_all add: newImpact_of_def Let_def)

lemma propagate_edges_fail_returns:
  "propagate_edges (Suc n) g es path ''fail'' st \<noteq> None"
proof (induction es arbitrary: st)
  case Nil
  show ?case by simp
next
  case (Cons e es)
  let ?st0 = "st\<lparr> affected := affected st
      @ [\<lparr> au_Name = From e, Impact = ''fail_to_start'', PropagationPath = path @ [From e],
            au_EdgeType = Type e, au_Severity = edge_severity (Type e) \<rparr>] \<rparr>"
  have nested: "propagate (Suc n) g (From e) (path @ [From e]) ''fail_to_start'' ?st0 \<noteq> None"
    by (simp add: propagate_edges_other_type)
  show ?case
  proof (cases "StartFailure (GetSemantics (Type e)) \<and> From e \<notin> visited st")
    case False
    with Cons.IH [of st] show ?thesis
      by (auto simp: newImpact_of_def Let_def)
  next
    case True
    from nested obtain st1
      where st1: "propagate (Suc n) g (From e) (path @ [From e]) ''fail_to_start'' ?st0 = Some st1"
      by blast
    have "propagate_edges (Suc n) g (e # es) path ''fail'' st
        = propagate_edges (Suc n) g es path ''fail'' st1"
      using True st1 unfolding propagate_edges.simps newImpact_of_def Let_def by simp
    with Cons.IH [of st1] show ?thesis by simp
  qed
qed

lemma edge_severity_table:
  "edge_severity t =
     (if t = EdgeRequisite then ''critical''
      else if t = EdgeRequires \<or> t = EdgeBindsTo then ''high''
      else ''medium'')"
  by (cases t) (simp_all add: edge_severity_def)

lemma sweep_flag_fail: "sweep_flag ''fail'' = StartFailure"
  by (rule ext) (simp add: sweep_flag_def)

lemma sweep_flag_stop: "sweep_flag ''stop'' = StopPropagates"
  by (rule ext) (simp add: sweep_flag_def)

text \<open>
  C2. \<open>SimulateFailure\<close> returns once two nested calls are allowed, and then every affected
  unit it records was reached either in the fail sweep, along edges whose semantics set
  \<open>StartFailure\<close>, with impact \<open>fail_to_start\<close>, or in the stop sweep, along edges whose
  semantics set \<open>StopPropagates\<close>, with impact \<open>stop\<close>; its severity is critical when the
  causing edge is Requisite, high when it is Requires or BindsTo, and medium otherwise.
\<close>

theorem SimulateFailure_records:
  "(2 \<le> depth \<longrightarrow> SimulateFailure depth g failedUnit \<noteq> None)
   \<and> (\<forall>imp. SimulateFailure depth g failedUnit = Some imp \<longrightarrow>
        (\<forall>au \<in> set (AffectedUnits imp).
           ((Impact au = ''fail_to_start'' \<and> reached_along g failedUnit StartFailure au)
            \<or> (Impact au = ''stop'' \<and> reached_along g failedUnit StopPropagates au))
           \<and> au_Severity au =
               (if au_EdgeType au = EdgeRequisite then ''critical''
                else if au_EdgeType au = EdgeRequires \<or> au_EdgeType au = EdgeBindsTo then ''high''
                else ''medium'')))"
proof (intro conjI allI impI ballI)
  assume "2 \<le> depth"
  then obtain n where depth: "depth = Suc (Suc n)"
    by (metis Suc_le_D numeral_2_eq_2 Suc_le_mono)
  let ?st = "\<lparr> visited = {}, affected = [] \<rparr>"
  have "propagate depth g failedUnit [failedUnit] ''fail'' ?st \<noteq> None"
    unfolding depth using propagate_edges_fail_returns by simp
  then obtain st1 where st1: "propagate depth g failedUnit [failedUnit] ''fail'' ?st = Some st1"
    by blast
  have "propagate depth g failedUnit [failedUnit] ''stop'' (st1\<lparr> visited := {failedUnit} \<rparr>)
      = Some (st1\<lparr> visited := {failedUnit} \<rparr>)"
    unfolding depth by simp
  with st1 show "SimulateFailure depth g failedUnit \<noteq> None"
    by (simp add: SimulateFailure_def)
next
  fix imp au
  assume run: "SimulateFailure depth g failedUnit = Some imp"
    and au: "au \<in> set (AffectedUnits imp)"
  let ?st = "\<lparr> visited = {}, affected = [] \<rparr>"
  from run obtain st1 st2
    where st1: "propagate depth g failedUnit [failedUnit] ''fail'' ?st = Some st1"
      and st2: "propagate depth g failedUnit [failedUnit] ''stop'' (st1\<lparr> visited := {failedUnit} \<rparr>)
                  = Some st2"
      and imp: "AffectedUnits imp = affected st2"
    by (auto simp: SimulateFailure_def split: option.splits)
  from propagate_records [OF st1, of failedUnit]
  obtain new1 where a1: "affected st1 = new1"
    and ok1: "\<forall>au \<in> set new1. record_ok g failedUnit ''fail'' au" by auto
  from propagate_records [OF st2, of failedUnit]
  obtain new2 where a2: "affected st2 = affected st1 @ new2"
    and ok2: "\<forall>au \<in> set new2. record_ok g failedUnit ''stop'' au" by auto
  from au imp a1 a2 ok1 ok2
  have ok: "record_ok g failedUnit ''fail'' au \<or> record_ok g failedUnit ''stop'' au" by auto
  then show "(Impact au = ''fail_to_start'' \<and> reached_along g failedUnit StartFailure au)
            \<or> (Impact au = ''stop'' \<and> reached_along g failedUnit StopPropagates au)"
    by (auto simp: record_ok_def sweep_flag_fail sweep_flag_stop sweep_impact_def)
  from ok have "au_Severity au = edge_severity (au_EdgeType au)"
    by (auto simp: record_ok_def)
  then show "au_Severity au =
               (if au_EdgeType au = EdgeRequisite then ''critical''
                else if au_EdgeType au = EdgeRequires \<or> au_EdgeType au = EdgeBindsTo then ''high''
                else ''medium'')"
    by (simp only: edge_severity_table)
qed

lemma SimulateFailure_prop_graph: "SimulateFailure 5 prop_graph ''a'' = Some prop_impact"
  by code_simp

theorem SimulateFailure_records_witness:
  "SimulateFailure 5 prop_graph ''a'' = Some prop_impact
   \<and> list_all (\<lambda>au. Impact au = ''fail_to_start'' \<and> reached_along prop_graph ''a'' StartFailure au)
         (AffectedUnits prop_impact)
   \<and> map au_Severity (AffectedUnits prop_impact) = [''high'', ''critical'']"
proof -
  have run: "SimulateFailure 5 prop_graph ''a'' = Some prop_impact"
    by (rule SimulateFailure_prop_graph)
  from SimulateFailure_records [of 5 prop_graph "''a''"] run
  have all: "\<forall>au \<in> set (AffectedUnits prop_impact).
           ((Impact au = ''fail_to_start'' \<and> reached_along prop_graph ''a'' StartFailure au)
            \<or> (Impact au = ''stop'' \<and> reached_along prop_graph ''a'' StopPropagates au))"
    by blast
  have impacts: "\<forall>au \<in> set (AffectedUnits prop_impact). Impact au \<noteq> ''stop''"
    by (simp add: prop_impact_def)
  from all impacts
  have "\<forall>au \<in> set (AffectedUnits prop_impact).
        Impact au = ''fail_to_start'' \<and> reached_along prop_graph ''a'' StartFailure au"
    by blast
  then have fail: "list_all (\<lambda>au. Impact au = ''fail_to_start''
        \<and> reached_along prop_graph ''a'' StartFailure au) (AffectedUnits prop_impact)"
    unfolding list_all_iff .
  have sev: "map au_Severity (AffectedUnits prop_impact) = [''high'', ''critical'']"
    by (simp add: prop_impact_def)
  from run fail sev show ?thesis by (intro conjI)
qed

subsection \<open>Duration parser\<close>

text \<open>
  The values the specification lists at the boundary: the empty string, \<open>0\<close> and \<open>infinity\<close>
  give zero, a bare number is seconds, compound forms add up, and input without a digit
  gives zero together with an error.
\<close>

lemma ParseDuration_boundary_values:
  "ParseDuration '''' = Some (Duration 0 None)"
  "ParseDuration ''0'' = Some (Duration 0 None)"
  "ParseDuration ''infinity'' = Some (Duration 0 None)"
  "ParseDuration ''5'' = Some (Duration (5 * Second) None)"
  "ParseDuration ''1h30min'' = Some (Duration (5400 * Second) None)"
  "ParseDuration ''100ms'' = Some (Duration (100 * Millisecond) None)"
  "ParseDuration ''1year'' = Some (Duration (365 * 24 * Hour) None)"
  "ParseDuration ''nonsense'' = Some (Duration 0 (Some (Invalid_duration ''nonsense'')))"
  by code_simp+

text \<open>
  C3. The parser does not treat \<open>month\<close> and \<open>months\<close> as 30 days, and does not recognise unit
  names in upper case: in the unit group of the regular expression the alternative \<open>m\<close> stands
  before \<open>months?\<close>, so one month is parsed as one minute followed by text without digits, and
  the expression matches lower-case letters only (and \<open>M\<close>), so \<open>5H\<close> is five seconds.
\<close>

theorem ParseDuration_month_is_minute:
  "FindAllStringSubmatch ''1month'' = [(''1'', ''m'')]
   \<and> ParseDuration ''1month'' = Some (Duration (1 * Minute) None)
   \<and> ParseDuration ''2months'' = Some (Duration (2 * Minute) None)
   \<and> FindAllStringSubmatch ''5H'' = [(''5'', [])]
   \<and> ParseDuration ''5H'' = Some (Duration (5 * Second) None)"
proof -
  have a: "FindAllStringSubmatch ''1month'' = [(''1'', ''m'')]" by code_simp
  have b: "ParseDuration ''1month'' = Some (Duration (1 * Minute) None)" by code_simp
  have c: "ParseDuration ''2months'' = Some (Duration (2 * Minute) None)" by code_simp
  have d: "FindAllStringSubmatch ''5H'' = [(''5'', [])]" by code_simp
  have e: "ParseDuration ''5H'' = Some (Duration (5 * Second) None)" by code_simp
  from a b c d e show ?thesis by (intro conjI)
qed

end
